theory Spec2Isabelle
  imports Main
begin

section \<open>The inventory store\<close>

text \<open>
  The two tables of \<^verbatim>\<open>migrations/1_init.sql\<close> that the booking service and the expiry
  worker touch. A table is the list of its rows in the order a sequential scan returns
  them. Identifiers are the UUID strings of the source; timestamps are integers
  (microseconds, the resolution of \<^verbatim>\<open>TIMESTAMPTZ\<close>).
\<close>

type_synonym uuid = string

datatype seat_status = AVAILABLE | BOOKED

datatype booking_status = PENDING | CONFIRMED | FAILED

text \<open>A parsed JSON value of a request body; numbers are kept as integers.\<close>

datatype json =
    JNull
  | JBool bool
  | JNum int
  | JStr string
  | JArr "json list"
  | JObj "(string \<times> json) list"

record seat =
  seat_id :: uuid
  show_id :: uuid
  seat_number :: string
  seat_status :: seat_status

record booking =
  booking_id :: uuid
  booking_show_id :: uuid
  user_id :: "json option"
  booking_seats :: "uuid list"
  status :: booking_status
  created_at :: int
  updated_at :: int

record store =
  seats :: "seat list"
  bookings :: "booking list"

text \<open>
  The statements the two components send to the store. Any of them can be rejected by
  the store (lost connection, deadlock victim, constraint or type error); which ones are
  is a parameter of every operation, a fault oracle.
\<close>

datatype stmt =
    Connect
  | Begin
  | LockSeats
  | InsertBooking
  | MarkSeatsBooked
  | Commit
  | Rollback
  | MarkBookingFailed
  | AdvisoryLock
  | FetchCandidates
  | LockBooking
  | ExpireBooking
  | FreeSeats
  | AdvisoryUnlock

type_synonym faults = "stmt \<Rightarrow> bool"

text \<open>
  The errors of \<^verbatim>\<open>createBooking\<close>, named after the spec's taxonomy:
  \<^item> \<open>ShowIdRequired\<close>: \<^verbatim>\<open>'showId is required'\<close>;
  \<^item> \<open>SeatNumbersEmpty\<close>: \<^verbatim>\<open>'seatNumbers must be a non-empty array'\<close>;
  \<^item> \<open>UnitNotFound\<close>: \<^verbatim>\<open>'One or more seats do not exist for this show.'\<close>;
  \<^item> \<open>UnitUnavailable l\<close>: \<^verbatim>\<open>`Seat ${taken.seat_number} is already booked or unavailable.`\<close>;
  \<^item> \<open>StoreFailure s\<close>: the rejection of statement \<open>s\<close> by the store;
  \<^item> \<open>ReleasedTwice\<close>: the error a pooled client of node-postgres throws when
    \<^verbatim>\<open>release()\<close> is called on it a second time.
\<close>

datatype error =
    ShowIdRequired
  | SeatNumbersEmpty
  | UnitNotFound
  | UnitUnavailable string
  | StoreFailure stmt
  | ReleasedTwice

text \<open>The SQL text and parameters of the statements of \<^verbatim>\<open>createBooking\<close>, as issued.\<close>

datatype query =
    QBegin
  | QLockSeats uuid "string list"
  | QInsertBooking uuid uuid "json option" "uuid list"
  | QMarkSeatsBooked "uuid list"
  | QCommit
  | QRollback
  | QMarkBookingFailed uuid

section \<open>The reservation engine: \<^verbatim>\<open>createBooking\<close>\<close>

text \<open>
  What the call draws from its environment: the identifier \<^verbatim>\<open>uuidv4()\<close> returns, the
  value of \<^verbatim>\<open>now()\<close> in the store, the fault oracle, and whether the connection is lost
  while \<^verbatim>\<open>COMMIT\<close> is being acknowledged (\<open>ack_lost\<close>): the store has then applied the
  \<^verbatim>\<open>COMMIT\<close>, yet the client's \<^verbatim>\<open>COMMIT\<close> rejects, and so does every later statement
  on that client. A \<^verbatim>\<open>COMMIT\<close> the oracle rejects is one the store has not applied.
\<close>

record env =
  new_id :: uuid
  now :: int
  fails :: faults
  ack_lost :: bool

text \<open>
  \<^verbatim>\<open>SELECT id, seat_number, status FROM seats
     WHERE show_id = $1 AND seat_number = ANY($2) FOR UPDATE\<close>
\<close>

definition lockQuery :: "store \<Rightarrow> uuid \<Rightarrow> string list \<Rightarrow> seat list" where
  "lockQuery st showId seatNumbers =
     filter (\<lambda>s. show_id s = showId \<and> seat_number s \<in> set seatNumbers) (seats st)"

text \<open>
  \<^verbatim>\<open>INSERT INTO bookings (id, show_id, user_id, seats, status)
     VALUES ($1, $2, $3, $4, 'PENDING') RETURNING ...\<close>;
  \<^verbatim>\<open>created_at\<close> and \<^verbatim>\<open>updated_at\<close> take their default \<^verbatim>\<open>NOW()\<close>.
\<close>

definition newBooking :: "env \<Rightarrow> uuid \<Rightarrow> json option \<Rightarrow> uuid list \<Rightarrow> booking" where
  "newBooking e showId userId seatIds =
     \<lparr>booking_id = new_id e, booking_show_id = showId, user_id = userId,
      booking_seats = seatIds, status = PENDING, created_at = now e, updated_at = now e\<rparr>"

text \<open>\<^verbatim>\<open>UPDATE seats SET status = 'BOOKED' WHERE id = ANY($1)\<close>\<close>

definition markSeatsBooked :: "uuid list \<Rightarrow> seat list \<Rightarrow> seat list" where
  "markSeatsBooked seatIds ss =
     map (\<lambda>s. if seat_id s \<in> set seatIds then s\<lparr>seat_status := BOOKED\<rparr> else s) ss"

text \<open>\<^verbatim>\<open>UPDATE bookings SET status = 'FAILED' WHERE id = $1\<close>\<close>

definition markBookingFailed :: "uuid \<Rightarrow> booking list \<Rightarrow> booking list" where
  "markBookingFailed bookingId bs =
     map (\<lambda>b. if booking_id b = bookingId then b\<lparr>status := FAILED\<rparr> else b) bs"

text \<open>
  How the \<^verbatim>\<open>try\<close> block of \<^verbatim>\<open>createBooking\<close> ends: it returns the inserted row, the
  transaction committed; it throws with nothing committed; or it throws at \<^verbatim>\<open>COMMIT\<close>
  although the store has committed the transaction, the acknowledgement being lost with
  the connection.
\<close>

datatype tx_end =
    Returned booking store
  | Thrown error
  | ThrownAfterCommit store

text \<open>
  The \<^verbatim>\<open>try\<close> block of \<^verbatim>\<open>createBooking\<close>: the statements between \<^verbatim>\<open>BEGIN\<close> and
  \<^verbatim>\<open>COMMIT\<close> work on the transaction's own copy of the store. The result is how the
  block ends, with the committed store where there is one, and the statements issued.
  The insert is rejected when the primary key is already present.
\<close>

definition bookingTx ::
  "env \<Rightarrow> store \<Rightarrow> uuid \<Rightarrow> string list \<Rightarrow> json option \<Rightarrow> tx_end \<times> query list"
where
  "bookingTx e st showId seatNumbers userId =
    (if fails e Begin then (Thrown (StoreFailure Begin), [QBegin])
     else if fails e LockSeats
       then (Thrown (StoreFailure LockSeats), [QBegin, QLockSeats showId seatNumbers])
     else
       let rows = lockQuery st showId seatNumbers;
           q = [QBegin, QLockSeats showId seatNumbers]
       in if length rows \<noteq> length seatNumbers then (Thrown UnitNotFound, q)
          else case find (\<lambda>s. seat_status s \<noteq> AVAILABLE) rows of
            Some taken \<Rightarrow> (Thrown (UnitUnavailable (seat_number taken)), q)
          | None \<Rightarrow>
              let seatIds = map seat_id rows;
                  b = newBooking e showId userId seatIds;
                  q1 = q @ [QInsertBooking (new_id e) showId userId seatIds];
                  committed = \<lparr>seats = markSeatsBooked seatIds (seats st),
                               bookings = bookings st @ [b]\<rparr>
              in if fails e InsertBooking \<or> new_id e \<in> booking_id ` set (bookings st)
                 then (Thrown (StoreFailure InsertBooking), q1)
                 else if fails e MarkSeatsBooked
                   then (Thrown (StoreFailure MarkSeatsBooked), q1 @ [QMarkSeatsBooked seatIds])
                 else if fails e Commit
                   then (Thrown (StoreFailure Commit), q1 @ [QMarkSeatsBooked seatIds, QCommit])
                 else if ack_lost e
                   then (ThrownAfterCommit committed, q1 @ [QMarkSeatsBooked seatIds, QCommit])
                 else (Returned b committed, q1 @ [QMarkSeatsBooked seatIds, QCommit]))"

text \<open>
  The best-effort statement of the \<^verbatim>\<open>catch\<close> block, sent outside the transaction through
  \<^verbatim>\<open>db.query\<close>; its own failure is swallowed.
\<close>

definition cleanup :: "env \<Rightarrow> store \<Rightarrow> store" where
  "cleanup e st =
     (if fails e MarkBookingFailed then st
      else st\<lparr>bookings := markBookingFailed (new_id e) (bookings st)\<rparr>)"

text \<open>
  \<^verbatim>\<open>createBooking(showId, seatNumbers, userId)\<close>: the result, the store after the call
  and the statements issued. The two argument checks and \<^verbatim>\<open>db.getClient()\<close> come
  before the \<^verbatim>\<open>try\<close>. In the \<^verbatim>\<open>catch\<close> block the transaction's copy is dropped; when
  \<^verbatim>\<open>ROLLBACK\<close> itself is rejected its error replaces the original one and the cleanup
  statement is not reached. After a \<^verbatim>\<open>COMMIT\<close> whose acknowledgement was lost the
  connection is gone, so the \<^verbatim>\<open>ROLLBACK\<close> is rejected and the committed store stays.
\<close>

definition createBooking ::
  "env \<Rightarrow> store \<Rightarrow> uuid \<Rightarrow> string list \<Rightarrow> json option \<Rightarrow> (error + booking) \<times> store \<times> query list"
where
  "createBooking e st showId seatNumbers userId =
    (if showId = [] then (Inl ShowIdRequired, st, [])
     else if seatNumbers = [] then (Inl SeatNumbersEmpty, st, [])
     else if fails e Connect then (Inl (StoreFailure Connect), st, [])
     else case bookingTx e st showId seatNumbers userId of
         (Returned b st', q) \<Rightarrow> (Inr b, st', q)
       | (Thrown err, q) \<Rightarrow>
           if fails e Rollback then (Inl (StoreFailure Rollback), st, q @ [QRollback])
           else (Inl err, cleanup e st, q @ [QRollback, QMarkBookingFailed (new_id e)])
       | (ThrownAfterCommit st', q) \<Rightarrow> (Inl (StoreFailure Rollback), st', q @ [QRollback]))"

text \<open>\<^verbatim>\<open>getBooking\<close>: \<^verbatim>\<open>SELECT ... FROM bookings WHERE id = $1\<close>, \<^verbatim>\<open>rows[0] || null\<close>.\<close>

definition getBooking :: "store \<Rightarrow> uuid \<Rightarrow> booking option" where
  "getBooking st bookingId = find (\<lambda>b. booking_id b = bookingId) (bookings st)"

section \<open>The controller: \<^verbatim>\<open>handleCreateBooking\<close>\<close>

text \<open>
  \<^verbatim>\<open>String.prototype.trim\<close> strips white space and line terminators from both ends. A
  \<open>char\<close> stands for a UTF-16 code unit below 256; the code units that are stripped there
  are TAB, LF, VT, FF, CR, SP and NBSP.
\<close>

definition is_space :: "char \<Rightarrow> bool" where
  "is_space c = (c \<in> {CHR 0x09, CHR 0x0A, CHR 0x0B, CHR 0x0C, CHR 0x0D, CHR 0x20, CHR 0xA0})"

definition trim :: "string \<Rightarrow> string" where
  "trim s = rev (dropWhile is_space (rev (dropWhile is_space s)))"

text \<open>\<^verbatim>\<open>!v\<close> and \<^verbatim>\<open>typeof v === 'object'\<close> on a JSON value.\<close>

fun falsy :: "json \<Rightarrow> bool" where
  "falsy JNull = True"
| "falsy (JBool b) = (\<not> b)"
| "falsy (JNum n) = (n = 0)"
| "falsy (JStr s) = (s = [])"
| "falsy (JArr xs) = False"
| "falsy (JObj kvs) = False"

fun is_object :: "json \<Rightarrow> bool" where
  "is_object JNull = True"
| "is_object (JArr xs) = True"
| "is_object (JObj kvs) = True"
| "is_object v = False"

text \<open>Reading a property: \<open>None\<close> is \<^verbatim>\<open>undefined\<close>. An array has none of the three names.\<close>

fun getProp :: "json \<Rightarrow> string \<Rightarrow> json option" where
  "getProp (JObj kvs) k = map_of kvs k"
| "getProp v k = None"

text \<open>
  The loop \<^verbatim>\<open>for (const s of seatNumbers)\<close>: every entry is a string that is not empty
  once trimmed. The result is the entries as strings, or \<open>None\<close> when the check throws.
\<close>

fun seatStrings :: "json list \<Rightarrow> string list option" where
  "seatStrings [] = Some []"
| "seatStrings (JStr s # rest) =
     (if length (trim s) = 0 then None
      else case seatStrings rest of None \<Rightarrow> None | Some ss \<Rightarrow> Some (s # ss))"
| "seatStrings (v # rest) = None"

text \<open>
  The answer of the controller: an \<^verbatim>\<open>ApiError(400, message)\<close> thrown by the validation,
  before the service is called, or the result of the service (sent with status 201, or
  handed to \<^verbatim>\<open>next\<close>).
\<close>

datatype response = BadRequest string | Served "error + booking"

text \<open>
  \<^verbatim>\<open>handleCreateBooking\<close>, with \<^verbatim>\<open>req.body\<close> as its argument (\<open>None\<close> when there is no
  body). The service is called with \<^verbatim>\<open>seatNumbers.map(s => s.trim())\<close> and
  \<^verbatim>\<open>userId || null\<close>.
\<close>

definition handleCreateBooking ::
  "env \<Rightarrow> store \<Rightarrow> json option \<Rightarrow> response \<times> store \<times> query list"
where
  "handleCreateBooking e st req_body =
    (case req_body of
       None \<Rightarrow> (BadRequest ''Invalid request body'', st, [])
     | Some body \<Rightarrow>
        if falsy body \<or> \<not> is_object body then (BadRequest ''Invalid request body'', st, [])
        else case getProp body ''showId'' of
           Some (JStr showId) \<Rightarrow>
             if showId = [] then (BadRequest ''showId is required and must be a string'', st, [])
             else (case getProp body ''seatNumbers'' of
                Some (JArr seatNumbers) \<Rightarrow>
                  if length seatNumbers = 0
                  then (BadRequest
                     ''seatNumbers is required and must be a non-empty array of seat identifiers'',
                     st, [])
                  else (case seatStrings seatNumbers of
                     None \<Rightarrow> (BadRequest ''Each seatNumber must be a non-empty string'', st, [])
                   | Some ss \<Rightarrow>
                       let userId = (case getProp body ''userId'' of
                                       None \<Rightarrow> None
                                     | Some u \<Rightarrow> if falsy u then None else Some u)
                       in case createBooking e st showId (map trim ss) userId of
                            (r, st', q) \<Rightarrow> (Served r, st', q))
              | _ \<Rightarrow> (BadRequest
                     ''seatNumbers is required and must be a non-empty array of seat identifiers'',
                     st, []))
         | _ \<Rightarrow> (BadRequest ''showId is required and must be a string'', st, []))"

section \<open>The expiry reconciler: \<^verbatim>\<open>processExpiryCycle\<close>\<close>

text \<open>
  What a cycle draws from its environment: the value of \<^verbatim>\<open>now()\<close> in the candidate
  query and in the transaction of each candidate, \<^verbatim>\<open>EXPIRE_MINUTES\<close> (a whole number of
  minutes, 2 when the variable is not set), whether another
  session holds the advisory lock, the fault oracle of the cycle's own client and the
  fault oracle of the transaction of each candidate.
\<close>

record wenv =
  w_now :: int
  item_now :: "uuid \<Rightarrow> int"
  expire_minutes :: int
  lock_taken :: bool
  w_fails :: faults
  item_fails :: "uuid \<Rightarrow> faults"

definition minutes :: "int \<Rightarrow> int" where
  "minutes m = m * 60000000"

text \<open>
  \<^verbatim>\<open>SELECT id FROM bookings
     WHERE status = 'PENDING' AND created_at < now() - ($1 || ' minutes')::interval
     ORDER BY created_at ASC LIMIT 100\<close>.
  Rows of equal \<^verbatim>\<open>created_at\<close> keep their table order.
\<close>

definition stale :: "wenv \<Rightarrow> booking \<Rightarrow> bool" where
  "stale w b = (status b = PENDING \<and> created_at b < w_now w - minutes (expire_minutes w))"

definition fetchCandidates :: "wenv \<Rightarrow> store \<Rightarrow> uuid list" where
  "fetchCandidates w st =
     map booking_id (take 100 (sort_key created_at (filter (stale w) (bookings st))))"

text \<open>\<^verbatim>\<open>UPDATE bookings SET status = 'FAILED', updated_at = now() WHERE id = $1\<close>\<close>

definition expireRow :: "int \<Rightarrow> uuid \<Rightarrow> booking list \<Rightarrow> booking list" where
  "expireRow t bookingId bs =
     map (\<lambda>b. if booking_id b = bookingId then b\<lparr>status := FAILED, updated_at := t\<rparr> else b) bs"

text \<open>\<^verbatim>\<open>UPDATE seats SET status = 'AVAILABLE' WHERE id = ANY($1)\<close>\<close>

definition freeSeats :: "uuid list \<Rightarrow> seat list \<Rightarrow> seat list" where
  "freeSeats seatIds ss =
     map (\<lambda>s. if seat_id s \<in> set seatIds then s\<lparr>seat_status := AVAILABLE\<rparr> else s) ss"

text \<open>What the transaction of one candidate did.\<close>

datatype outcome = Expired | NotFound | NotPending | Failed stmt

text \<open>
  The \<^verbatim>\<open>try\<close> block of the loop body, for one candidate: \<open>Inl s\<close> when statement \<open>s\<close> is
  rejected and control passes to the \<^verbatim>\<open>catch\<close> block, else what was done and the store
  after it. The two early exits send \<^verbatim>\<open>ROLLBACK\<close> themselves.
\<close>

definition itemTx :: "faults \<Rightarrow> int \<Rightarrow> store \<Rightarrow> uuid \<Rightarrow> stmt + outcome \<times> store" where
  "itemTx f t st bookingId =
    (if f Begin then Inl Begin
     else if f LockBooking then Inl LockBooking
     else case find (\<lambda>b. booking_id b = bookingId) (bookings st) of
        None \<Rightarrow> if f Rollback then Inl Rollback else Inr (NotFound, st)
      | Some b \<Rightarrow>
          if status b \<noteq> PENDING then (if f Rollback then Inl Rollback else Inr (NotPending, st))
          else if f ExpireBooking then Inl ExpireBooking
          else if length (booking_seats b) > 0 \<and> f FreeSeats then Inl FreeSeats
          else if f Commit then Inl Commit
          else Inr (Expired,
                 \<lparr>seats = (if length (booking_seats b) > 0
                            then freeSeats (booking_seats b) (seats st) else seats st),
                  bookings = expireRow t bookingId (bookings st)\<rparr>))"

text \<open>
  \<^verbatim>\<open>txClient.release()\<close> on a pooled client: the argument tells whether the client has
  been released before, the result is the error thrown, if any.
\<close>

definition release :: "bool \<Rightarrow> error option" where
  "release released = (if released then Some ReleasedTwice else None)"

text \<open>
  One turn of \<^verbatim>\<open>for (const bookingId of bookingsToExpire)\<close>: what was done, the error
  that leaves the loop body (\<open>None\<close> when the loop goes on), and the store.
  \<^item> \<^verbatim>\<open>pool.connect()\<close> stands before the \<^verbatim>\<open>try\<close>: its rejection leaves the loop.
  \<^item> The \<^verbatim>\<open>catch\<close> block sends \<^verbatim>\<open>ROLLBACK\<close>; when that is rejected the error leaves the
    loop, otherwise the failure is logged and the loop goes on. Either way the
    transaction's changes are dropped.
  \<^item> The two early exits have called \<^verbatim>\<open>txClient.release()\<close> before \<^verbatim>\<open>continue\<close>, and
    the \<^verbatim>\<open>finally\<close> block calls it again.
\<close>

definition expireBooking :: "faults \<Rightarrow> int \<Rightarrow> store \<Rightarrow> uuid \<Rightarrow> outcome \<times> error option \<times> store" where
  "expireBooking f t st bookingId =
    (if f Connect then (Failed Connect, Some (StoreFailure Connect), st)
     else case itemTx f t st bookingId of
         Inl s \<Rightarrow>
           if f Rollback then (Failed s, Some (StoreFailure Rollback), st)
           else (Failed s, release False, st)
       | Inr (Expired, st') \<Rightarrow> (Expired, release False, st')
       | Inr (out, st') \<Rightarrow> (out, release True, st'))"

text \<open>
  The loop: the candidates processed with what was done for each, the error that ended
  the loop early, and the store.
\<close>

fun processItems ::
  "(uuid \<Rightarrow> faults) \<Rightarrow> (uuid \<Rightarrow> int) \<Rightarrow> store \<Rightarrow> uuid list
     \<Rightarrow> (uuid \<times> outcome) list \<times> error option \<times> store"
where
  "processItems f t st [] = ([], None, st)"
| "processItems f t st (i # ids) =
     (case expireBooking (f i) (t i) st i of
        (out, Some err, st') \<Rightarrow> ([(i, out)], Some err, st')
      | (out, None, st') \<Rightarrow>
          (case processItems f t st' ids of
             (outs, thrown, st'') \<Rightarrow> ((i, out) # outs, thrown, st'')))"

text \<open>
  \<^verbatim>\<open>tryAcquireAdvisoryLock\<close>: \<^verbatim>\<open>pg_try_advisory_lock\<close> answers whether the lock was
  free; a rejected query is logged and counts as \<^verbatim>\<open>false\<close>.
\<close>

definition tryAcquireAdvisoryLock :: "wenv \<Rightarrow> bool" where
  "tryAcquireAdvisoryLock w = (if w_fails w AdvisoryLock then False else \<not> lock_taken w)"

text \<open>
  \<^verbatim>\<open>processExpiryCycle\<close>: the candidates processed and the store after the cycle.
  \<^verbatim>\<open>pool.connect()\<close> stands before the \<^verbatim>\<open>try\<close>; an error of the candidate query or one
  that leaves the loop is caught and logged by the outer \<^verbatim>\<open>catch\<close>; the unlock in
  \<^verbatim>\<open>finally\<close> does not touch the tables.
\<close>

definition processExpiryCycle :: "wenv \<Rightarrow> store \<Rightarrow> (uuid \<times> outcome) list \<times> store" where
  "processExpiryCycle w st =
    (if w_fails w Connect then ([], st)
     else let gotLock = tryAcquireAdvisoryLock w
          in if \<not> gotLock then ([], st)
             else if w_fails w FetchCandidates then ([], st)
             else let bookingsToExpire = fetchCandidates w st
                  in if length bookingsToExpire = 0 then ([], st)
                     else case processItems (item_fails w) (item_now w) st bookingsToExpire of
                            (outs, thrown, st') \<Rightarrow> (outs, st'))"

section \<open>Schema constraints, operations and reachable stores\<close>

text \<open>
  The constraints the schema declares: the primary keys of the two tables and
  \<^verbatim>\<open>UNIQUE (show_id, seat_number)\<close>.
\<close>

definition pk_seats :: "store \<Rightarrow> bool" where
  "pk_seats st = distinct (map seat_id (seats st))"

definition pk_bookings :: "store \<Rightarrow> bool" where
  "pk_bookings st = distinct (map booking_id (bookings st))"

definition unique_seat_numbers :: "store \<Rightarrow> bool" where
  "unique_seat_numbers st = distinct (map (\<lambda>s. (show_id s, seat_number s)) (seats st))"

text \<open>
  A store as the catalogue creation leaves it: seats inserted \<^verbatim>\<open>'AVAILABLE'\<close>, no booking
  yet.
\<close>

definition initial :: "store \<Rightarrow> bool" where
  "initial st =
     (bookings st = [] \<and> (\<forall>s \<in> set (seats st). seat_status s = AVAILABLE)
      \<and> pk_seats st \<and> unique_seat_numbers st)"

text \<open>
  One operation of the system on the store: a call of \<^verbatim>\<open>createBooking\<close> (whatever its
  arguments, its result and the faults met), the transaction of the reconciler for one
  booking identifier, or a whole reconciliation cycle; and the store it leaves.
\<close>

datatype operation =
    Reserve env uuid "string list" "json option"
  | ExpireOne faults int uuid
  | Cycle wenv

fun apply_op :: "operation \<Rightarrow> store \<Rightarrow> store" where
  "apply_op (Reserve e showId seatNumbers userId) st =
     fst (snd (createBooking e st showId seatNumbers userId))"
| "apply_op (ExpireOne f t bookingId) st = snd (snd (expireBooking f t st bookingId))"
| "apply_op (Cycle w) st = snd (processExpiryCycle w st)"

text \<open>\<^verbatim>\<open>uuidv4()\<close> returns an identifier no booking has.\<close>

fun op_ok :: "operation \<Rightarrow> store \<Rightarrow> bool" where
  "op_ok (Reserve e showId seatNumbers userId) st =
     (new_id e \<notin> booking_id ` set (bookings st))"
| "op_ok x st = True"

text \<open>
  The store a sequence of operations leads to (\<open>None\<close> when an identifier drawn is not
  fresh). The stores reachable are those a sequence leads to from an initial store.
\<close>

fun run :: "operation list \<Rightarrow> store \<Rightarrow> store option" where
  "run [] st = Some st"
| "run (x # xs) st = (if op_ok x st then run xs (apply_op x st) else None)"

text \<open>
  The bookings that hold a seat: those not \<open>FAILED\<close> (that is, \<open>PENDING\<close> or \<open>CONFIRMED\<close>)
  whose seat list names it.
\<close>

definition holders :: "store \<Rightarrow> uuid \<Rightarrow> booking list" where
  "holders st seatId =
     filter (\<lambda>b. status b \<noteq> FAILED \<and> seatId \<in> set (booking_seats b)) (bookings st)"

text \<open>
  The invariant of the data model: a seat has at most one holder, and it is \<open>BOOKED\<close>
  exactly when it has one.
\<close>

definition store_inv :: "store \<Rightarrow> bool" where
  "store_inv st =
     (\<forall>s \<in> set (seats st).
        length (holders st (seat_id s)) \<le> 1 \<and>
        (seat_status s = BOOKED \<longleftrightarrow> holders st (seat_id s) \<noteq> []))"

text \<open>A seat with this label exists for the show.\<close>

definition seat_exists :: "store \<Rightarrow> uuid \<Rightarrow> string \<Rightarrow> bool" where
  "seat_exists st showId l = (\<exists>s \<in> set (seats st). show_id s = showId \<and> seat_number s = l)"

text \<open>A string with no white space at either end.\<close>

definition trimmed :: "string \<Rightarrow> bool" where
  "trimmed l = (l = [] \<or> (\<not> is_space (hd l) \<and> \<not> is_space (last l)))"

text \<open>The store after the two updates of the reconciler for booking \<open>b\<close>.\<close>

definition applyExpiry :: "int \<Rightarrow> store \<Rightarrow> booking \<Rightarrow> store" where
  "applyExpiry t st b =
     \<lparr>seats = freeSeats (booking_seats b) (seats st),
      bookings = expireRow t (booking_id b) (bookings st)\<rparr>"

text \<open>No booking of the store is \<open>CONFIRMED\<close>.\<close>

definition no_confirmed :: "store \<Rightarrow> bool" where
  "no_confirmed st = (\<forall>b \<in> set (bookings st). status b = PENDING \<or> status b = FAILED)"

text \<open>The rows of \<open>st'\<close> seen from \<open>st\<close>: terminal rows are kept as they are, and a row
  is an old row, a new \<open>PENDING\<close> row, or a \<open>PENDING\<close> row of \<open>st\<close> now \<open>FAILED\<close>.\<close>

definition one_way :: "store \<Rightarrow> store \<Rightarrow> bool" where
  "one_way st st' =
     ((\<forall>b \<in> set (bookings st). status b \<noteq> PENDING \<longrightarrow> b \<in> set (bookings st')) \<and>
      (\<forall>b' \<in> set (bookings st').
          b' \<in> set (bookings st) \<or>
          (status b' = PENDING \<and> booking_id b' \<notin> booking_id ` set (bookings st)) \<or>
          (status b' = FAILED \<and>
           (\<exists>b \<in> set (bookings st). status b = PENDING \<and> booking_id b = booking_id b'))))"

text \<open>
  What a reconciliation cycle started in \<open>st\<close> keeps true of the store \<open>s\<close> it has reached.
\<close>

definition cycle_inv :: "store \<Rightarrow> store \<Rightarrow> bool" where
  "cycle_inv st s = (pk_bookings s \<and>
      (\<forall>b \<in> set (bookings st). status b \<noteq> PENDING \<longrightarrow> b \<in> set (bookings s)) \<and>
      (\<forall>b' \<in> set (bookings s).
          b' \<in> set (bookings st) \<or>
          (status b' = FAILED \<and>
           (\<exists>b \<in> set (bookings st). status b = PENDING \<and> booking_id b = booking_id b'))))"

text \<open>
  A cycle that gets the advisory lock and in which the store rejects no statement of the
  cycle or of the transaction of any candidate.
\<close>

definition quiet :: "wenv \<Rightarrow> bool" where
  "quiet w = (\<not> lock_taken w \<and> \<not> w_fails w Connect \<and> \<not> w_fails w AdvisoryLock \<and>
              \<not> w_fails w FetchCandidates \<and>
              (\<forall>s \<in> {Connect, Begin, LockBooking, ExpireBooking, FreeSeats, Commit, Rollback}.
                 \<forall>i. \<not> item_fails w i s))"

text \<open>The invariant together with the two primary keys it is kept with.\<close>

definition good :: "store \<Rightarrow> bool" where
  "good st = (store_inv st \<and> pk_seats st \<and> pk_bookings st)"

text \<open>
  The reservation of a call is fully applied in \<open>st'\<close>: its row \<open>b\<close> has been appended to
  the bookings of \<open>st\<close>, is \<open>PENDING\<close>, and for every requested label the seat of the show
  with that label is \<open>BOOKED\<close> and named in the row's seat list.
\<close>

definition fully_applied ::
  "env \<Rightarrow> store \<Rightarrow> uuid \<Rightarrow> string list \<Rightarrow> booking \<Rightarrow> store \<Rightarrow> bool"
where
  "fully_applied e st showId seatNumbers b st' =
     (bookings st' = bookings st @ [b] \<and> booking_id b = new_id e \<and> status b = PENDING \<and>
      (\<forall>l \<in> set seatNumbers. \<exists>s \<in> set (seats st').
          show_id s = showId \<and> seat_number s = l \<and> seat_status s = BOOKED \<and>
          seat_id s \<in> set (booking_seats b)))"

section \<open>Concrete stores and environments\<close>

definition no_faults :: faults where
  "no_faults = (\<lambda>s. False)"

definition seat1 :: seat where
  "seat1 = \<lparr>seat_id = ''s1'', show_id = ''g'', seat_number = ''1'', seat_status = AVAILABLE\<rparr>"

definition seat2 :: seat where
  "seat2 = \<lparr>seat_id = ''s2'', show_id = ''g'', seat_number = ''2'', seat_status = AVAILABLE\<rparr>"

definition seat3 :: seat where
  "seat3 = \<lparr>seat_id = ''s3'', show_id = ''g'', seat_number = ''3'', seat_status = AVAILABLE\<rparr>"

definition store0 :: store where
  "store0 = \<lparr>seats = [seat1, seat2, seat3], bookings = []\<rparr>"

definition env1 :: env where
  "env1 = \<lparr>new_id = ''b1'', now = 1000, fails = no_faults, ack_lost = False\<rparr>"

definition env2 :: env where
  "env2 = \<lparr>new_id = ''b2'', now = 2000, fails = no_faults, ack_lost = False\<rparr>"

text \<open>The call of \<open>env1\<close> with the acknowledgement of its \<^verbatim>\<open>COMMIT\<close> lost.\<close>

definition env3 :: env where
  "env3 = env1\<lparr>ack_lost := True\<rparr>"

definition booking1 :: booking where
  "booking1 = \<lparr>booking_id = ''b1'', booking_show_id = ''g'', user_id = None,
     booking_seats = [''s1'', ''s2''], status = PENDING, created_at = 1000, updated_at = 1000\<rparr>"

definition store1 :: store where
  "store1 = \<lparr>seats = [seat1\<lparr>seat_status := BOOKED\<rparr>, seat2\<lparr>seat_status := BOOKED\<rparr>, seat3],
              bookings = [booking1]\<rparr>"

text \<open>A request body that names seat 1 twice, with white space around the labels.\<close>

definition body_dup :: json where
  "body_dup = JObj [(''showId'', JStr ''g''), (''seatNumbers'', JArr [JStr '' 1'', JStr ''1 ''])]"

text \<open>A store with a booking confirmed by another party.\<close>

definition confirmed1 :: booking where
  "confirmed1 = \<lparr>booking_id = ''c1'', booking_show_id = ''g'', user_id = None,
     booking_seats = [''s3''], status = CONFIRMED, created_at = 0, updated_at = 500\<rparr>"

definition store2 :: store where
  "store2 = \<lparr>seats = [seat1\<lparr>seat_status := BOOKED\<rparr>, seat2\<lparr>seat_status := BOOKED\<rparr>,
                        seat3\<lparr>seat_status := BOOKED\<rparr>],
              bookings = [confirmed1, booking1]\<rparr>"

text \<open>
  A cycle 200 seconds after the epoch with the default deadline of 2 minutes, the
  advisory lock free and no statement rejected; and the store it leaves from \<open>store2\<close>.
\<close>

definition wenv1 :: wenv where
  "wenv1 = \<lparr>w_now = 200000000, item_now = (\<lambda>i. 200000001), expire_minutes = 2,
             lock_taken = False, w_fails = no_faults, item_fails = (\<lambda>i. no_faults)\<rparr>"

definition store3 :: store where
  "store3 = \<lparr>seats = [seat1, seat2, seat3\<lparr>seat_status := BOOKED\<rparr>],
              bookings = [confirmed1, booking1\<lparr>status := FAILED, updated_at := 200000001\<rparr>]\<rparr>"

text \<open>
  A store with 101 seats and 101 bookings, oldest first, each \<open>PENDING\<close>, created within
  the first 101 microseconds and holding one seat of its own.
\<close>

definition staleSeat :: "nat \<Rightarrow> seat" where
  "staleSeat n = \<lparr>seat_id = replicate (Suc n) CHR ''s'', show_id = ''g'',
     seat_number = replicate (Suc n) CHR ''1'', seat_status = BOOKED\<rparr>"

definition staleRow :: "nat \<Rightarrow> booking" where
  "staleRow n = \<lparr>booking_id = replicate (Suc n) CHR ''b'', booking_show_id = ''g'',
     user_id = None, booking_seats = [replicate (Suc n) CHR ''s''], status = PENDING,
     created_at = int n, updated_at = int n\<rparr>"

definition backlog :: store where
  "backlog = \<lparr>seats = map staleSeat [0..<101], bookings = map staleRow [0..<101]\<rparr>"

text \<open>A store with two bookings \<open>PENDING\<close> and older than the deadline of \<open>wenv1\<close>.\<close>

definition booking2 :: booking where
  "booking2 = \<lparr>booking_id = ''b2'', booking_show_id = ''g'', user_id = None,
     booking_seats = [''s3''], status = PENDING, created_at = 2000, updated_at = 2000\<rparr>"

definition store4 :: store where
  "store4 = \<lparr>seats = [seat1\<lparr>seat_status := BOOKED\<rparr>, seat2\<lparr>seat_status := BOOKED\<rparr>,
                        seat3\<lparr>seat_status := BOOKED\<rparr>],
              bookings = [booking1, booking2]\<rparr>"

text \<open>
  A connection lost while the row of a candidate is being locked: the lock query and the
  \<^verbatim>\<open>ROLLBACK\<close> sent after it on the same client are both rejected. In \<open>wenv2\<close> this
  happens to the transaction of booking \<open>b1\<close> only.
\<close>

definition connection_lost :: faults where
  "connection_lost = (\<lambda>s. s = LockBooking \<or> s = Rollback)"

definition wenv2 :: wenv where
  "wenv2 = wenv1\<lparr>item_fails := (\<lambda>i. if i = ''b1'' then connection_lost else no_faults)\<rparr>"

lemmas concrete_defs =
  no_faults_def seat1_def seat2_def seat3_def store0_def env1_def env2_def booking1_def
  store1_def body_dup_def confirmed1_def store2_def wenv1_def store3_def booking2_def
  store4_def connection_lost_def wenv2_def env3_def

lemmas createBooking_defs =
  createBooking_def bookingTx_def lockQuery_def newBooking_def markSeatsBooked_def
  markBookingFailed_def cleanup_def Let_def

section \<open>Facts about \<^verbatim>\<open>createBooking\<close>\<close>

lemma markBookingFailed_fresh:
  "i \<notin> booking_id ` set bs \<Longrightarrow> markBookingFailed i bs = bs"
  unfolding markBookingFailed_def by (induction bs) auto

lemma cleanup_fresh:
  "new_id e \<notin> booking_id ` set (bookings st) \<Longrightarrow> cleanup e st = st"
  by (simp add: cleanup_def markBookingFailed_fresh)

text \<open>
  A call leaves the store as it was, or leaves the committed store: then it returns the
  inserted row, or the acknowledgement of \<^verbatim>\<open>COMMIT\<close> was lost and it throws.
\<close>

lemma bookingTx_committed:
  assumes "bookingTx e st showId seatNumbers userId = (Returned b st', q)
         \<or> bookingTx e st showId seatNumbers userId = (ThrownAfterCommit st', q)
            \<and> b = newBooking e showId userId (map seat_id (lockQuery st showId seatNumbers))"
  shows "b = newBooking e showId userId (map seat_id (lockQuery st showId seatNumbers))
       \<and> st' = \<lparr>seats = markSeatsBooked (map seat_id (lockQuery st showId seatNumbers)) (seats st),
                 bookings = bookings st @ [b]\<rparr>
       \<and> length (lockQuery st showId seatNumbers) = length seatNumbers
       \<and> find (\<lambda>s. seat_status s \<noteq> AVAILABLE) (lockQuery st showId seatNumbers) = None
       \<and> new_id e \<notin> booking_id ` set (bookings st)"
  using assms
  by (auto simp: bookingTx_def Let_def split: if_splits option.splits)

lemma createBooking_Inr:
  assumes "createBooking e st showId seatNumbers userId = (Inr b, st', q)"
  shows "b = newBooking e showId userId (map seat_id (lockQuery st showId seatNumbers))
       \<and> st' = \<lparr>seats = markSeatsBooked (map seat_id (lockQuery st showId seatNumbers)) (seats st),
                 bookings = bookings st @ [b]\<rparr>
       \<and> length (lockQuery st showId seatNumbers) = length seatNumbers
       \<and> find (\<lambda>s. seat_status s \<noteq> AVAILABLE) (lockQuery st showId seatNumbers) = None
       \<and> new_id e \<notin> booking_id ` set (bookings st)"
proof -
  from assms obtain q' where "bookingTx e st showId seatNumbers userId = (Returned b st', q')"
    by (auto simp: createBooking_def split: if_splits prod.splits tx_end.splits)
  then show ?thesis by (intro bookingTx_committed) simp
qed

lemma createBooking_Inl:
  assumes "new_id e \<notin> booking_id ` set (bookings st)"
    and "createBooking e st showId seatNumbers userId = (Inl err, st', q)"
  shows "st' = st
       \<or> ack_lost e \<and> err = StoreFailure Rollback \<and>
         st' = \<lparr>seats = markSeatsBooked (map seat_id (lockQuery st showId seatNumbers)) (seats st),
                 bookings = bookings st @
                   [newBooking e showId userId (map seat_id (lockQuery st showId seatNumbers))]\<rparr>
         \<and> length (lockQuery st showId seatNumbers) = length seatNumbers
         \<and> find (\<lambda>s. seat_status s \<noteq> AVAILABLE) (lockQuery st showId seatNumbers) = None"
proof (cases "fst (bookingTx e st showId seatNumbers userId)")
  case (Returned b s1)
  with assms(2) show ?thesis
    by (auto simp: createBooking_def split: if_splits prod.splits)
next
  case (Thrown x)
  with assms show ?thesis
    by (auto simp: createBooking_def cleanup_fresh split: if_splits prod.splits)
next
  case (ThrownAfterCommit s1)
  then obtain q' where t: "bookingTx e st showId seatNumbers userId = (ThrownAfterCommit s1, q')"
    by (cases "bookingTx e st showId seatNumbers userId") simp
  let ?b = "newBooking e showId userId (map seat_id (lockQuery st showId seatNumbers))"
  from t have al: "ack_lost e"
    by (auto simp: bookingTx_def Let_def split: if_splits option.splits)
  from t have "bookingTx e st showId seatNumbers userId = (Returned ?b s1, q')
         \<or> bookingTx e st showId seatNumbers userId = (ThrownAfterCommit s1, q') \<and> ?b = ?b"
    by simp
  from bookingTx_committed [OF this] have c:
    "s1 = \<lparr>seats = markSeatsBooked (map seat_id (lockQuery st showId seatNumbers)) (seats st),
           bookings = bookings st @ [?b]\<rparr>"
    "length (lockQuery st showId seatNumbers) = length seatNumbers"
    "find (\<lambda>s. seat_status s \<noteq> AVAILABLE) (lockQuery st showId seatNumbers) = None"
    by simp_all
  show ?thesis
  proof (cases "st' = st")
    case True
    then show ?thesis by simp
  next
    case False
    with assms(2) t have "st' = s1" "err = StoreFailure Rollback"
      by (auto simp: createBooking_def split: if_splits)
    with al c show ?thesis by simp
  qed
qed

text \<open>
  Under \<^verbatim>\<open>UNIQUE (show_id, seat_number)\<close> the locked rows carry pairwise different labels,
  so their number is the number of requested labels that exist.
\<close>

lemma lockQuery_labels_distinct:
  assumes "unique_seat_numbers st"
  shows "distinct (map seat_number (lockQuery st showId labels))"
proof -
  let ?rows = "lockQuery st showId labels"
  have d: "distinct (map (\<lambda>s. (show_id s, seat_number s)) ?rows)"
    using assms unfolding unique_seat_numbers_def lockQuery_def by (rule distinct_map_filter)
  have "map (\<lambda>s. (show_id s, seat_number s)) ?rows = map (Pair showId) (map seat_number ?rows)"
    by (simp add: lockQuery_def)
  with d have "distinct (map (Pair showId) (map seat_number ?rows))" by simp
  then show ?thesis
    using distinct_map [of "Pair showId" "map seat_number ?rows"] by blast
qed

lemma lockQuery_labels_set:
  "set (map seat_number (lockQuery st showId labels)) = {l \<in> set labels. seat_exists st showId l}"
  by (auto simp: lockQuery_def seat_exists_def)

lemma lockQuery_count:
  assumes "unique_seat_numbers st"
  shows "length (lockQuery st showId labels) = length labels
         \<longleftrightarrow> distinct labels \<and> (\<forall>l \<in> set labels. seat_exists st showId l)"
proof -
  let ?rows = "lockQuery st showId labels"
  let ?found = "{l \<in> set labels. seat_exists st showId l}"
  have len: "length ?rows = card ?found"
    using lockQuery_labels_distinct [OF assms, of showId labels]
      lockQuery_labels_set [of st showId labels] distinct_card [of "map seat_number ?rows"]
    by simp
  have sub: "?found \<subseteq> set labels" by auto
  have le1: "card ?found \<le> card (set labels)" by (rule card_mono) (auto)
  have le2: "card (set labels) \<le> length labels" by (rule card_length)
  show ?thesis
  proof
    assume eq: "length ?rows = length labels"
    with len le1 le2 have c1: "card ?found = card (set labels)"
      and c2: "card (set labels) = length labels"
      by auto
    from c2 have "distinct labels" by (rule card_distinct)
    moreover from c1 sub have "?found = set labels" by (simp add: card_subset_eq)
    then have "\<forall>l \<in> set labels. seat_exists st showId l" by auto
    ultimately show "distinct labels \<and> (\<forall>l \<in> set labels. seat_exists st showId l)" by simp
  next
    assume "distinct labels \<and> (\<forall>l \<in> set labels. seat_exists st showId l)"
    then have d: "distinct labels" and "?found = set labels" by auto
    with len show "length ?rows = length labels" by (simp add: distinct_card)
  qed
qed

section \<open>The scenario of the spec\<close>

lemma reserve_1_2: "createBooking env1 store0 ''g'' [''1'', ''2''] None
   = (Inr booking1, store1,
      [QBegin, QLockSeats ''g'' [''1'', ''2''], QInsertBooking ''b1'' ''g'' None [''s1'', ''s2''],
       QMarkSeatsBooked [''s1'', ''s2''], QCommit])"
  by (simp add: createBooking_defs concrete_defs)

section \<open>Atomicity of \<^verbatim>\<open>createBooking\<close>\<close>

lemma committed_is_fully_applied:
  assumes uniq: "unique_seat_numbers st"
    and b: "b = newBooking e showId userId (map seat_id (lockQuery st showId seatNumbers))"
    and st': "st' = \<lparr>seats = markSeatsBooked (map seat_id (lockQuery st showId seatNumbers))
                               (seats st),
                     bookings = bookings st @ [b]\<rparr>"
    and len: "length (lockQuery st showId seatNumbers) = length seatNumbers"
  shows "fully_applied e st showId seatNumbers b st'"
proof -
  let ?rows = "lockQuery st showId seatNumbers"
  let ?ids = "map seat_id ?rows"
  have held: "\<exists>s \<in> set (seats st'). show_id s = showId \<and> seat_number s = l \<and>
                seat_status s = BOOKED \<and> seat_id s \<in> set (booking_seats b)"
    if l: "l \<in> set seatNumbers" for l
  proof -
    from len uniq l have "seat_exists st showId l"
      by (simp add: lockQuery_count)
    then obtain s where s: "s \<in> set (seats st)" "show_id s = showId" "seat_number s = l"
      by (auto simp: seat_exists_def)
    with l have "s \<in> set ?rows" by (simp add: lockQuery_def)
    then have sid: "seat_id s \<in> set ?ids" by simp
    with s(1) have "s\<lparr>seat_status := BOOKED\<rparr> \<in> set (markSeatsBooked ?ids (seats st))"
      by (force simp: markSeatsBooked_def)
    with s sid b st' show ?thesis
      by (intro bexI [of _ "s\<lparr>seat_status := BOOKED\<rparr>"]) (simp_all add: newBooking_def)
  qed
  from b st' held show ?thesis by (simp add: fully_applied_def newBooking_def)
qed

text \<open>
  C1 (as amended). After a call of \<^verbatim>\<open>createBooking\<close> the store holds either no effect
  of the call or its reservation fully applied, never a part of it.
  \<^item> When the call returns a row, the reservation is fully applied: the row is
    \<open>PENDING\<close>, appended to the bookings, and every requested seat is \<open>BOOKED\<close> and named
    in it.
  \<^item> When the call fails, at whichever step (an argument check, a missing seat, an
    unavailable seat, or a statement the store rejects), the store after the call is the
    store before it: no seat has changed status and no booking row with the call's
    identifier exists. The one exception is a \<^verbatim>\<open>COMMIT\<close> the store applied whose
    acknowledgement was lost: then the call fails and the reservation is fully applied.
  The identifier drawn by \<^verbatim>\<open>uuidv4()\<close> is one no booking has.
\<close>

theorem createBooking_all_or_nothing:
  assumes fresh: "new_id e \<notin> booking_id ` set (bookings st)"
    and uniq: "unique_seat_numbers st"
    and run: "createBooking e st showId seatNumbers userId = (r, st', q)"
  shows "case r of
           Inl err \<Rightarrow>
             (st' = st \<and> getBooking st' (new_id e) = None) \<or>
             (ack_lost e \<and> (\<exists>b. fully_applied e st showId seatNumbers b st'))
         | Inr b \<Rightarrow> fully_applied e st showId seatNumbers b st'"
proof (cases r)
  case (Inl err)
  from fresh have none: "getBooking st (new_id e) = None"
    by (force simp: getBooking_def find_None_iff)
  from run Inl fresh createBooking_Inl [of e st showId seatNumbers userId err st' q]
  have "st' = st \<or> ack_lost e \<and>
      st' = \<lparr>seats = markSeatsBooked (map seat_id (lockQuery st showId seatNumbers)) (seats st),
             bookings = bookings st @
                [newBooking e showId userId (map seat_id (lockQuery st showId seatNumbers))]\<rparr>
      \<and> length (lockQuery st showId seatNumbers) = length seatNumbers"
    by blast
  then show ?thesis
  proof
    assume "st' = st"
    with none Inl show ?thesis by simp
  next
    assume a: "ack_lost e \<and>
      st' = \<lparr>seats = markSeatsBooked (map seat_id (lockQuery st showId seatNumbers)) (seats st),
             bookings = bookings st @
                [newBooking e showId userId (map seat_id (lockQuery st showId seatNumbers))]\<rparr>
      \<and> length (lockQuery st showId seatNumbers) = length seatNumbers"
    then have "fully_applied e st showId seatNumbers
        (newBooking e showId userId (map seat_id (lockQuery st showId seatNumbers))) st'"
      by (intro committed_is_fully_applied [OF uniq refl]) simp_all
    with a Inl show ?thesis by auto
  qed
next
  case (Inr b)
  from run Inr createBooking_Inr [of e st showId seatNumbers userId b st' q]
  have "fully_applied e st showId seatNumbers b st'"
    by (intro committed_is_fully_applied [OF uniq]) simp_all
  with Inr show ?thesis by simp
qed

lemma reserve_1_2_ack_lost: "createBooking env3 store0 ''g'' [''1'', ''2''] None
   = (Inl (StoreFailure Rollback), store1,
      [QBegin, QLockSeats ''g'' [''1'', ''2''], QInsertBooking ''b1'' ''g'' None [''s1'', ''s2''],
       QMarkSeatsBooked [''s1'', ''s2''], QCommit, QRollback])"
  by (simp add: createBooking_defs concrete_defs)

theorem createBooking_all_or_nothing_witness:
  "createBooking env2 store1 ''g'' [''2'', ''3''] None
     = (Inl (UnitUnavailable ''2''), store1,
        [QBegin, QLockSeats ''g'' [''2'', ''3''], QRollback, QMarkBookingFailed ''b2''])
   \<and> \<not> ack_lost env2 \<and> getBooking store1 ''b2'' = None
   \<and> fst (createBooking env1 store0 ''g'' [''1'', ''2''] None) = Inr booking1
   \<and> fst (snd (createBooking env1 store0 ''g'' [''1'', ''2''] None)) = store1
   \<and> fully_applied env1 store0 ''g'' [''1'', ''2''] booking1 store1
   \<and> status booking1 = PENDING
   \<and> seats store1 = [seat1\<lparr>seat_status := BOOKED\<rparr>, seat2\<lparr>seat_status := BOOKED\<rparr>, seat3]
   \<and> fst (createBooking env3 store0 ''g'' [''1'', ''2''] None) = Inl (StoreFailure Rollback)
   \<and> fst (snd (createBooking env3 store0 ''g'' [''1'', ''2''] None)) = store1
   \<and> ack_lost env3 \<and> fully_applied env3 store0 ''g'' [''1'', ''2''] booking1 store1"
proof -
  have fresh2: "new_id env2 \<notin> booking_id ` set (bookings store1)"
    by (simp add: concrete_defs)
  have uniq1: "unique_seat_numbers store1"
    by (simp add: unique_seat_numbers_def concrete_defs)
  have run2: "createBooking env2 store1 ''g'' [''2'', ''3''] None
     = (Inl (UnitUnavailable ''2''), store1,
        [QBegin, QLockSeats ''g'' [''2'', ''3''], QRollback, QMarkBookingFailed ''b2''])"
    by (simp add: createBooking_defs concrete_defs)
  have fresh1: "new_id env1 \<notin> booking_id ` set (bookings store0)"
    by (simp add: concrete_defs)
  have uniq0: "unique_seat_numbers store0"
    by (simp add: unique_seat_numbers_def concrete_defs)
  have n2: "\<not> ack_lost env2" "new_id env2 = ''b2''" by (simp_all add: concrete_defs)
  have c: "status booking1 = PENDING"
    "seats store1 = [seat1\<lparr>seat_status := BOOKED\<rparr>, seat2\<lparr>seat_status := BOOKED\<rparr>, seat3]"
    by (simp_all add: concrete_defs)
  from createBooking_all_or_nothing [OF fresh2 uniq1 run2] n2
  have a: "getBooking store1 ''b2'' = None" by simp
  from createBooking_all_or_nothing [OF fresh1 uniq0 reserve_1_2]
  have b: "fully_applied env1 store0 ''g'' [''1'', ''2''] booking1 store1" by simp
  have fresh3: "new_id env3 \<notin> booking_id ` set (bookings store0)"
    by (simp add: concrete_defs)
  have ne: "store1 \<noteq> store0" by (simp add: concrete_defs)
  from createBooking_all_or_nothing [OF fresh3 uniq0 reserve_1_2_ack_lost] ne
  have d: "ack_lost env3" by simp
  have "new_id env3 = new_id env1" by (simp add: env3_def)
  with b have f: "fully_applied env3 store0 ''g'' [''1'', ''2''] booking1 store1"
    by (simp add: fully_applied_def)
  from a b c d f n2(1) show ?thesis by (simp add: run2 reserve_1_2 reserve_1_2_ack_lost)
qed

text \<open>
  C1 as stated fails: when the store applies the \<^verbatim>\<open>COMMIT\<close> and the acknowledgement is
  lost with the connection, the \<^verbatim>\<open>COMMIT\<close> and the \<^verbatim>\<open>ROLLBACK\<close> of the \<^verbatim>\<open>catch\<close> block
  both reject, the call fails, and yet the booking row persists and seats 1 and 2 have
  changed from \<open>AVAILABLE\<close> to \<open>BOOKED\<close>.
\<close>

theorem lost_acknowledgement_counterexample:
  "createBooking env3 store0 ''g'' [''1'', ''2''] None
     = (Inl (StoreFailure Rollback), store1,
        [QBegin, QLockSeats ''g'' [''1'', ''2''], QInsertBooking ''b1'' ''g'' None [''s1'', ''s2''],
         QMarkSeatsBooked [''s1'', ''s2''], QCommit, QRollback])
   \<and> getBooking store1 (new_id env3) = Some booking1
   \<and> map seat_status (seats store0) = [AVAILABLE, AVAILABLE, AVAILABLE]
   \<and> map seat_status (seats store1) = [BOOKED, BOOKED, AVAILABLE]"
  by (simp add: createBooking_defs getBooking_def concrete_defs)

section \<open>The two business errors of \<^verbatim>\<open>createBooking\<close>\<close>


lemma createBooking_at_count_check:
  assumes "showId \<noteq> []" "seatNumbers \<noteq> []"
    and "\<not> fails e Connect" "\<not> fails e Begin" "\<not> fails e LockSeats" "\<not> fails e Rollback"
    and "new_id e \<notin> booking_id ` set (bookings st)"
    and "length (lockQuery st showId seatNumbers) \<noteq> length seatNumbers"
  shows "createBooking e st showId seatNumbers userId =
           (Inl UnitNotFound, st,
            [QBegin, QLockSeats showId seatNumbers, QRollback, QMarkBookingFailed (new_id e)])"
  using assms by (simp add: createBooking_def bookingTx_def Let_def cleanup_fresh)

text \<open>
  C6 (as amended). When the store accepts the statements up to the lock query and the
  \<^verbatim>\<open>ROLLBACK\<close>, a call whose number of locked rows differs from the number of requested
  labels fails with \<open>UnitNotFound\<close>, the transaction is rolled back and the store is left
  as it was. Under \<^verbatim>\<open>UNIQUE (show_id, seat_number)\<close> the two numbers differ exactly when
  a requested label does not exist for the show or the request names a label twice.
\<close>

theorem count_mismatch_is_UnitNotFound:
  assumes "unique_seat_numbers st"
    and "showId \<noteq> []" "seatNumbers \<noteq> []"
    and "\<not> fails e Connect" "\<not> fails e Begin" "\<not> fails e LockSeats" "\<not> fails e Rollback"
    and "new_id e \<notin> booking_id ` set (bookings st)"
  shows "(length (lockQuery st showId seatNumbers) \<noteq> length seatNumbers \<longrightarrow>
            createBooking e st showId seatNumbers userId =
              (Inl UnitNotFound, st,
               [QBegin, QLockSeats showId seatNumbers, QRollback, QMarkBookingFailed (new_id e)]))
       \<and> (length (lockQuery st showId seatNumbers) \<noteq> length seatNumbers \<longleftrightarrow>
            (\<exists>l \<in> set seatNumbers. \<not> seat_exists st showId l) \<or> \<not> distinct seatNumbers)"
proof
  show "length (lockQuery st showId seatNumbers) \<noteq> length seatNumbers \<longrightarrow>
            createBooking e st showId seatNumbers userId =
              (Inl UnitNotFound, st,
               [QBegin, QLockSeats showId seatNumbers, QRollback, QMarkBookingFailed (new_id e)])"
    using assms(2-) by (auto intro: createBooking_at_count_check)
  show "length (lockQuery st showId seatNumbers) \<noteq> length seatNumbers \<longleftrightarrow>
            (\<exists>l \<in> set seatNumbers. \<not> seat_exists st showId l) \<or> \<not> distinct seatNumbers"
    using lockQuery_count [OF assms(1), of showId seatNumbers] by blast
qed

theorem count_mismatch_is_UnitNotFound_witness:
  "createBooking env1 store0 ''g'' [''9''] None =
     (Inl UnitNotFound, store0, [QBegin, QLockSeats ''g'' [''9''], QRollback, QMarkBookingFailed ''b1''])
   \<and> length (lockQuery store0 ''g'' [''9'']) \<noteq> length [''9'']
   \<and> \<not> seat_exists store0 ''g'' ''9''"
proof -
  have u: "unique_seat_numbers store0"
    by (simp add: unique_seat_numbers_def concrete_defs)
  have f: "new_id env1 \<notin> booking_id ` set (bookings store0)"
    by (simp add: concrete_defs)
  have m: "length (lockQuery store0 ''g'' [''9'']) \<noteq> length [''9'']"
    by (simp add: lockQuery_def concrete_defs)
  have ok: "\<not> fails env1 Connect" "\<not> fails env1 Begin" "\<not> fails env1 LockSeats"
    "\<not> fails env1 Rollback"
    by (simp_all add: concrete_defs)
  have n: "\<not> seat_exists store0 ''g'' ''9''"
    by (simp add: seat_exists_def concrete_defs)
  from count_mismatch_is_UnitNotFound [OF u _ _ ok f, of "''g''" "[''9'']" None] m n
  show ?thesis by (simp add: env1_def)
qed

text \<open>
  C6 as stated fails: the request \<^verbatim>\<open>["1", "1"]\<close> names only a label that exists, yet one
  row is locked for two labels and the call fails with \<open>UnitNotFound\<close>.
\<close>

theorem duplicate_label_counterexample:
  "length (lockQuery store0 ''g'' [''1'', ''1'']) \<noteq> length [''1'', ''1'']
   \<and> seat_exists store0 ''g'' ''1''
   \<and> createBooking env1 store0 ''g'' [''1'', ''1''] None =
       (Inl UnitNotFound, store0,
        [QBegin, QLockSeats ''g'' [''1'', ''1''], QRollback, QMarkBookingFailed ''b1''])"
  by (simp add: createBooking_defs seat_exists_def concrete_defs)



section \<open>The labels of the lock query\<close>

lemma hd_dropWhile_not: "dropWhile P xs \<noteq> [] \<Longrightarrow> \<not> P (hd (dropWhile P xs))"
  by (induction xs) auto

lemma trim_trimmed: "trimmed (trim s)"
proof (cases "trim s = []")
  case True
  then show ?thesis by (simp add: trimmed_def)
next
  case False
  let ?t = "dropWhile is_space s"
  let ?d = "dropWhile is_space (rev ?t)"
  from False have d: "?d \<noteq> []" by (simp add: trim_def)
  have "\<And>xs. dropWhile is_space (rev xs) \<noteq> [] \<Longrightarrow> xs \<noteq> []" by auto
  from this [OF d] have t: "?t \<noteq> []" .
  have "last (trim s) = hd ?d" using d by (simp add: trim_def last_rev)
  with d have l: "\<not> is_space (last (trim s))" by (simp add: hd_dropWhile_not)
  have "rev ?t = takeWhile is_space (rev ?t) @ ?d" by simp
  then have "rev (rev ?t) = rev (takeWhile is_space (rev ?t) @ ?d)" by (rule arg_cong)
  then have "?t = rev ?d @ rev (takeWhile is_space (rev ?t))"
    by (simp only: rev_rev_ident rev_append)
  then have "?t = trim s @ rev (takeWhile is_space (rev ?t))"
    by (simp only: trim_def)
  with False have "hd ?t = hd (trim s)" by (metis hd_append2)
  with t have h: "\<not> is_space (hd (trim s))" using hd_dropWhile_not [of is_space s] by simp
  from l h show ?thesis by (simp add: trimmed_def)
qed

lemma seatStrings_Some:
  "seatStrings js = Some ss \<Longrightarrow> js = map JStr ss \<and> (\<forall>s \<in> set ss. trim s \<noteq> [])"
  by (induction js arbitrary: ss rule: seatStrings.induct)
     (auto split: if_splits option.splits)

lemma bookingTx_lock:
  "QLockSeats sid ls \<in> set (snd (bookingTx e st showId seatNumbers userId))
   \<Longrightarrow> sid = showId \<and> ls = seatNumbers"
  by (auto simp: bookingTx_def Let_def split: if_splits option.splits)

lemma createBooking_lock:
  assumes "QLockSeats sid ls \<in> set (snd (snd (createBooking e st showId seatNumbers userId)))"
  shows "sid = showId \<and> ls = seatNumbers \<and> seatNumbers \<noteq> []"
proof -
  from assms have ne: "seatNumbers \<noteq> []" and "showId \<noteq> []" and "\<not> fails e Connect"
    by (auto simp: createBooking_def split: if_splits)
  with assms have "QLockSeats sid ls \<in> set (snd (bookingTx e st showId seatNumbers userId))"
    by (auto simp: createBooking_def split: if_splits prod.splits tx_end.splits)
  with ne show ?thesis by (auto dest: bookingTx_lock)
qed

lemma handleCreateBooking_lock:
  assumes "QLockSeats sid ls \<in> set (snd (snd (handleCreateBooking e st req)))"
  shows "\<exists>body ss. req = Some body \<and> getProp body ''seatNumbers'' = Some (JArr (map JStr ss))
            \<and> seatStrings (map JStr ss) = Some ss \<and> ls = map trim ss \<and> ss \<noteq> []"
proof -
  from assms obtain body where req: "req = Some body"
    by (cases req) (auto simp: handleCreateBooking_def)
  from assms req obtain showId where "getProp body ''showId'' = Some (JStr showId)"
    by (auto simp: handleCreateBooking_def split: if_splits option.splits json.splits)
  moreover from assms req calculation obtain js where js: "getProp body ''seatNumbers'' = Some (JArr js)"
    by (auto simp: handleCreateBooking_def split: if_splits option.splits json.splits)
  moreover from assms req calculation obtain ss where ss: "seatStrings js = Some ss"
    by (auto simp: handleCreateBooking_def split: if_splits option.splits json.splits)
  moreover define u where "u = (case getProp body ''userId'' of
                                   None \<Rightarrow> None
                                 | Some v \<Rightarrow> if falsy v then None else Some v)"
  ultimately have "handleCreateBooking e st req =
      (case createBooking e st showId (map trim ss) u of (r, st', q) \<Rightarrow> (Served r, st', q))"
    using assms req
    by (auto simp: handleCreateBooking_def Let_def split: if_splits)
  with assms have
    "QLockSeats sid ls \<in> set (snd (snd (createBooking e st showId (map trim ss) u)))"
    by (simp split: prod.splits)
  then have "ls = map trim ss" "map trim ss \<noteq> []" by (auto dest: createBooking_lock)
  moreover from ss have "js = map JStr ss" by (simp add: seatStrings_Some)
  ultimately show ?thesis using req js ss by auto
qed

text \<open>
  C4 (as amended). Whenever a request handled by \<^verbatim>\<open>handleCreateBooking\<close> issues the
  lock query, its labels are the supplied strings, each trimmed, in the order and with
  the repetitions of the request: the list is not empty and every label is non-empty and
  has no white space at either end. A request whose label list is empty is answered
  with an error, with no statement issued and the store untouched, and so is a direct
  call of \<^verbatim>\<open>createBooking\<close> with an empty list.
\<close>

theorem lock_query_labels:
  "(\<forall>showId labels.
      QLockSeats showId labels \<in> set (snd (snd (handleCreateBooking e st req))) \<longrightarrow>
        labels \<noteq> [] \<and> (\<forall>l \<in> set labels. l \<noteq> [] \<and> trimmed l) \<and>
        (\<exists>body ss. req = Some body \<and>
           getProp body ''seatNumbers'' = Some (JArr (map JStr ss)) \<and> labels = map trim ss))
   \<and> (\<forall>body. req = Some body \<and> getProp body ''seatNumbers'' = Some (JArr []) \<longrightarrow>
        (\<exists>msg. handleCreateBooking e st req = (BadRequest msg, st, [])))
   \<and> (\<exists>err. createBooking e st showId [] userId = (Inl err, st, []))"
proof (intro conjI allI impI)
  fix sid labels
  assume a: "QLockSeats sid labels \<in> set (snd (snd (handleCreateBooking e st req)))"
  from handleCreateBooking_lock [OF a] obtain body ss where
    b: "req = Some body" "getProp body ''seatNumbers'' = Some (JArr (map JStr ss))"
       "seatStrings (map JStr ss) = Some ss" "labels = map trim ss" "ss \<noteq> []"
    by blast
  from b(4,5) show "labels \<noteq> []" by simp
  from b(3) have "\<forall>s \<in> set ss. trim s \<noteq> []" by (simp add: seatStrings_Some)
  with b(4) show "\<forall>l \<in> set labels. l \<noteq> [] \<and> trimmed l" by (auto simp: trim_trimmed)
  from b show "\<exists>body ss. req = Some body \<and>
     getProp body ''seatNumbers'' = Some (JArr (map JStr ss)) \<and> labels = map trim ss"
    by blast
next
  fix body
  assume "req = Some body \<and> getProp body ''seatNumbers'' = Some (JArr [])"
  then show "\<exists>msg. handleCreateBooking e st req = (BadRequest msg, st, [])"
    by (auto simp: handleCreateBooking_def split: option.splits json.splits)
next
  show "\<exists>err. createBooking e st showId [] userId = (Inl err, st, [])"
    by (simp add: createBooking_def)
qed

text \<open>
  C4 as stated fails: for the request \<^verbatim>\<open>[" 1", "1 "]\<close> the lock query is issued with
  \<^verbatim>\<open>["1", "1"]\<close>, a list with a duplicate.
\<close>

theorem labels_not_deduplicated_counterexample:
  "snd (snd (handleCreateBooking env1 store0 (Some body_dup)))
     = [QBegin, QLockSeats ''g'' [''1'', ''1''], QRollback, QMarkBookingFailed ''b1'']
   \<and> \<not> distinct [''1'', ''1'']"
  by (simp add: handleCreateBooking_def body_dup_def trim_def is_space_def createBooking_defs
      concrete_defs)

theorem lock_query_labels_witness:
  "QLockSeats ''g'' [''1'', ''1''] \<in> set (snd (snd (handleCreateBooking env1 store0 (Some body_dup))))
   \<and> trimmed ''1''
   \<and> handleCreateBooking env1 store0 (Some (JObj [(''showId'', JStr ''g''), (''seatNumbers'', JArr [])]))
      = (BadRequest ''seatNumbers is required and must be a non-empty array of seat identifiers'',
         store0, [])"
proof -
  have m: "QLockSeats ''g'' [''1'', ''1'']
       \<in> set (snd (snd (handleCreateBooking env1 store0 (Some body_dup))))"
    by (simp add: handleCreateBooking_def body_dup_def trim_def is_space_def createBooking_defs
      concrete_defs)
  have e: "handleCreateBooking env1 store0 (Some (JObj [(''showId'', JStr ''g''), (''seatNumbers'', JArr [])]))
      = (BadRequest ''seatNumbers is required and must be a non-empty array of seat identifiers'',
         store0, [])"
    by (simp add: handleCreateBooking_def)
  from lock_query_labels [of env1 store0 "Some body_dup" "''g''" None] m
  have "trimmed ''1''" by auto
  with m e show ?thesis by simp
qed

section \<open>Facts about the reconciler\<close>

lemma freeSeats_Nil: "freeSeats [] ss = ss"
  by (simp add: freeSeats_def)

lemma find_id: "find (\<lambda>b. booking_id b = i) bs = Some b \<Longrightarrow> booking_id b = i \<and> b \<in> set bs"
  by (induction bs) (auto split: if_splits)

lemma itemTx_Inr:
  assumes "itemTx f t st i = Inr (out, st')"
  shows "(out = NotFound \<and> getBooking st i = None \<and> st' = st)
       \<or> (out = NotPending \<and> (\<exists>b. getBooking st i = Some b \<and> status b \<noteq> PENDING) \<and> st' = st)
       \<or> (out = Expired \<and>
            (\<exists>b. getBooking st i = Some b \<and> status b = PENDING \<and> st' = applyExpiry t st b))"
proof (cases "getBooking st i")
  case None
  with assms show ?thesis
    by (auto simp: itemTx_def getBooking_def split: if_splits)
next
  case (Some b)
  then have "booking_id b = i" by (auto simp: getBooking_def dest: find_id)
  with assms Some show ?thesis
    by (cases "booking_seats b")
       (auto simp: itemTx_def getBooking_def applyExpiry_def freeSeats_Nil split: if_splits)
qed

lemma expireBooking_cases:
  assumes "expireBooking f t st i = (out, thrown, st')"
  shows "st' = st \<and> out \<noteq> Expired
       \<or> (out = Expired \<and> thrown = None \<and>
            (\<exists>b. getBooking st i = Some b \<and> status b = PENDING \<and> st' = applyExpiry t st b))"
proof (cases "f Connect")
  case True
  with assms show ?thesis by (auto simp: expireBooking_def)
next
  case False
  show ?thesis
  proof (cases "itemTx f t st i")
    case (Inl s)
    with assms False show ?thesis by (auto simp: expireBooking_def split: if_splits)
  next
    case (Inr p)
    obtain o1 s1 where p: "p = (o1, s1)" by (cases p)
    from itemTx_Inr [of f t st i o1 s1] Inr p assms False show ?thesis
      by (auto simp: expireBooking_def release_def)
  qed
qed

text \<open>A property kept by every turn of the loop is kept by the loop and by the cycle.\<close>

lemma processItems_preserves:
  assumes turn: "\<And>s i out thrown s'. P s \<Longrightarrow> expireBooking (f i) (t i) s i = (out, thrown, s') \<Longrightarrow> P s'"
    and "P st" and "processItems f t st ids = (outs, thrown, st')"
  shows "P st'"
  using assms(2,3)
proof (induction ids arbitrary: st outs thrown st')
  case Nil
  then show ?case by simp
next
  case (Cons i ids)
  obtain out thr s1 where e: "expireBooking (f i) (t i) st i = (out, thr, s1)"
    by (cases "expireBooking (f i) (t i) st i") auto
  with Cons.prems(1) have p1: "P s1" by (rule turn)
  show ?case
  proof (cases thr)
    case None
    obtain outs2 thr2 s2 where r: "processItems f t s1 ids = (outs2, thr2, s2)"
      by (cases "processItems f t s1 ids") auto
    with Cons.prems(2) e None have "st' = s2" by simp
    with Cons.IH [OF p1 r] show ?thesis by simp
  next
    case (Some err)
    with Cons.prems(2) e have "st' = s1" by simp
    with p1 show ?thesis by simp
  qed
qed

lemma processExpiryCycle_preserves:
  assumes turn: "\<And>f t s i out thrown s'. P s \<Longrightarrow> expireBooking f t s i = (out, thrown, s') \<Longrightarrow> P s'"
    and "P st" and "processExpiryCycle w st = (outs, st')"
  shows "P st'"
proof (cases "st' = st")
  case True
  with assms(2) show ?thesis by simp
next
  case False
  with assms(3) obtain thrown where
    "processItems (item_fails w) (item_now w) st (fetchCandidates w st) = (outs, thrown, st')"
    by (auto simp: processExpiryCycle_def tryAcquireAdvisoryLock_def Let_def
          split: if_splits prod.splits)
  with assms(2) show ?thesis
    by (rule processItems_preserves [where P = P, rotated]) (rule turn)
qed

lemma apply_op_preserves:
  assumes res: "\<And>e s showId seatNumbers userId r s' q.
       P s \<Longrightarrow> new_id e \<notin> booking_id ` set (bookings s) \<Longrightarrow>
       createBooking e s showId seatNumbers userId = (r, s', q) \<Longrightarrow> P s'"
    and turn: "\<And>f t s i out thrown s'. P s \<Longrightarrow> expireBooking f t s i = (out, thrown, s') \<Longrightarrow> P s'"
    and "op_ok x st" and "P st"
  shows "P (apply_op x st)"
proof (cases x)
  case (Reserve e showId seatNumbers userId)
  obtain r st' q where c: "createBooking e st showId seatNumbers userId = (r, st', q)"
    by (cases "createBooking e st showId seatNumbers userId") auto
  from assms(3) Reserve have "new_id e \<notin> booking_id ` set (bookings st)" by simp
  with assms(4) have "P st'" using c by (rule res)
  with Reserve c show ?thesis by simp
next
  case (ExpireOne f t bookingId)
  obtain out thrown st' where c: "expireBooking f t st bookingId = (out, thrown, st')"
    by (cases "expireBooking f t st bookingId") auto
  with assms(4) have "P st'" by (rule turn)
  with ExpireOne c show ?thesis by simp
next
  case (Cycle w)
  obtain outs st' where c: "processExpiryCycle w st = (outs, st')"
    by (cases "processExpiryCycle w st") auto
  from _ assms(4) c have "P st'"
    by (rule processExpiryCycle_preserves [where P = P]) (rule turn)
  with Cycle c show ?thesis by simp
qed

lemma run_preserves:
  assumes "\<And>x s. op_ok x s \<Longrightarrow> P s \<Longrightarrow> P (apply_op x s)"
    and "P st0" and "run ops st0 = Some st"
  shows "P st"
  using assms(2,3)
proof (induction ops arbitrary: st0)
  case Nil
  then show ?case by simp
next
  case (Cons x xs)
  from Cons.prems(2) have ok: "op_ok x st0" and r: "run xs (apply_op x st0) = Some st"
    by (auto split: if_splits)
  from ok Cons.prems(1) have "P (apply_op x st0)" by (rule assms(1))
  from this r show ?case by (rule Cons.IH)
qed

section \<open>The reconciler skips what is gone or no longer pending\<close>

text \<open>
  C8. For a candidate identifier whose booking row does not exist when it is locked, or
  whose row is no longer \<open>PENDING\<close>, the transaction of the reconciler leaves the store
  as it was, whatever statements the store rejects: what was done is the skip
  (\<open>NotFound\<close>, \<open>NotPending\<close>) or the failure of a rejected statement, never an expiry.
\<close>

theorem skipped_item_changes_nothing:
  "(getBooking st i = None \<longrightarrow>
      snd (snd (expireBooking f t st i)) = st \<and>
      (fst (expireBooking f t st i) = NotFound \<or>
       (\<exists>s. f s \<and> fst (expireBooking f t st i) = Failed s)))
   \<and> (\<forall>b. getBooking st i = Some b \<and> status b \<noteq> PENDING \<longrightarrow>
      snd (snd (expireBooking f t st i)) = st \<and>
      (fst (expireBooking f t st i) = NotPending \<or>
       (\<exists>s. f s \<and> fst (expireBooking f t st i) = Failed s)))"
  by (auto simp: expireBooking_def itemTx_def getBooking_def split: if_splits)

theorem skipped_item_changes_nothing_witness:
  "getBooking store2 ''gone'' = None
   \<and> expireBooking no_faults 9000 store2 ''gone'' = (NotFound, Some ReleasedTwice, store2)
   \<and> getBooking store2 ''c1'' = Some confirmed1 \<and> status confirmed1 = CONFIRMED
   \<and> expireBooking no_faults 9000 store2 ''c1'' = (NotPending, Some ReleasedTwice, store2)"
proof -
  have a: "getBooking store2 ''gone'' = None"
    by (simp add: getBooking_def concrete_defs)
  have b: "getBooking store2 ''c1'' = Some confirmed1" "status confirmed1 \<noteq> PENDING"
    by (simp_all add: getBooking_def concrete_defs)
  have c: "fst (snd (expireBooking no_faults 9000 store2 ''gone'')) = Some ReleasedTwice"
    "fst (snd (expireBooking no_faults 9000 store2 ''c1'')) = Some ReleasedTwice"
    using a b by (simp_all add: expireBooking_def itemTx_def getBooking_def release_def no_faults_def)
  have d: "status confirmed1 = CONFIRMED" by (simp add: concrete_defs)
  from skipped_item_changes_nothing [of store2 "''gone''" no_faults 9000] a
  have 1: "expireBooking no_faults 9000 store2 ''gone'' = (NotFound, Some ReleasedTwice, store2)"
    using c(1) by (auto simp: no_faults_def prod_eq_iff)
  from skipped_item_changes_nothing [of store2 "''c1''" no_faults 9000] b
  have 2: "expireBooking no_faults 9000 store2 ''c1'' = (NotPending, Some ReleasedTwice, store2)"
    using c(2) by (auto simp: no_faults_def prod_eq_iff)
  from a b(1) d 1 2 show ?thesis by simp
qed

section \<open>No operation confirms a booking\<close>

lemma set_expireRow:
  "b' \<in> set (expireRow t i bs) \<Longrightarrow>
     b' \<in> set bs \<or> (\<exists>b \<in> set bs. booking_id b = i \<and> b' = b\<lparr>status := FAILED, updated_at := t\<rparr>)"
  by (auto simp: expireRow_def)

lemma set_markBookingFailed:
  "b' \<in> set (markBookingFailed i bs) \<Longrightarrow>
     b' \<in> set bs \<or> (\<exists>b \<in> set bs. booking_id b = i \<and> b' = b\<lparr>status := FAILED\<rparr>)"
  by (auto simp: markBookingFailed_def)

lemma createBooking_bookings:
  assumes "createBooking e st showId seatNumbers userId = (r, st', q)"
  shows "bookings st' = bookings st
       \<or> bookings st' = markBookingFailed (new_id e) (bookings st)
       \<or> (\<exists>b. status b = PENDING \<and> bookings st' = bookings st @ [b])"
proof (cases "fst (bookingTx e st showId seatNumbers userId)")
  case (Returned b s1)
  then obtain q' where t: "bookingTx e st showId seatNumbers userId = (Returned b s1, q')"
    by (cases "bookingTx e st showId seatNumbers userId") simp
  then have "bookingTx e st showId seatNumbers userId = (Returned b s1, q')
         \<or> bookingTx e st showId seatNumbers userId = (ThrownAfterCommit s1, q')
            \<and> b = newBooking e showId userId (map seat_id (lockQuery st showId seatNumbers))"
    by simp
  from bookingTx_committed [OF this] have "status b = PENDING" "bookings s1 = bookings st @ [b]"
    by (simp_all add: newBooking_def)
  with assms t show ?thesis
    by (auto simp: createBooking_def split: if_splits)
next
  case (Thrown x)
  with assms show ?thesis
    by (auto simp: createBooking_def cleanup_def split: if_splits prod.splits)
next
  case (ThrownAfterCommit s1)
  then obtain q' where t: "bookingTx e st showId seatNumbers userId = (ThrownAfterCommit s1, q')"
    by (cases "bookingTx e st showId seatNumbers userId") simp
  let ?b = "newBooking e showId userId (map seat_id (lockQuery st showId seatNumbers))"
  from t have "bookingTx e st showId seatNumbers userId = (Returned ?b s1, q')
         \<or> bookingTx e st showId seatNumbers userId = (ThrownAfterCommit s1, q') \<and> ?b = ?b"
    by simp
  from bookingTx_committed [OF this] have "status ?b = PENDING" "bookings s1 = bookings st @ [?b]"
    by (simp_all add: newBooking_def)
  with assms t show ?thesis
    by (auto simp: createBooking_def split: if_splits)
qed

lemma createBooking_no_confirmed:
  assumes "no_confirmed st" "createBooking e st showId seatNumbers userId = (r, st', q)"
  shows "no_confirmed st'"
  using createBooking_bookings [OF assms(2)] assms(1)
  by (auto simp: no_confirmed_def dest!: set_markBookingFailed)

lemma expireBooking_no_confirmed:
  assumes "no_confirmed st" "expireBooking f t st i = (out, thrown, st')"
  shows "no_confirmed st'"
  using expireBooking_cases [OF assms(2)] assms(1)
  by (auto simp: no_confirmed_def applyExpiry_def dest!: set_expireRow)

lemma apply_op_no_confirmed: "op_ok x st \<Longrightarrow> no_confirmed st \<Longrightarrow> no_confirmed (apply_op x st)"
  by (rule apply_op_preserves [where P = no_confirmed])
     (auto intro: createBooking_no_confirmed expireBooking_no_confirmed)

text \<open>
  C10. In every store reachable from a catalogue without bookings by calls of
  \<^verbatim>\<open>createBooking\<close>, transactions of the reconciler and reconciliation cycles, every
  booking is \<open>PENDING\<close> or \<open>FAILED\<close>: rows are inserted \<open>PENDING\<close> and the only later
  writes of a status write \<open>FAILED\<close>, so no booking is ever \<open>CONFIRMED\<close>.
\<close>

theorem never_confirmed:
  assumes "initial st0" and "run ops st0 = Some st"
  shows "\<forall>b \<in> set (bookings st). status b = PENDING \<or> status b = FAILED"
proof -
  from assms(1) have "no_confirmed st0" by (simp add: initial_def no_confirmed_def)
  with apply_op_no_confirmed have "no_confirmed st"
    using assms(2) by (rule run_preserves [where P = no_confirmed])
  then show ?thesis by (simp add: no_confirmed_def)
qed

lemma initial_store0: "initial store0"
  by (simp add: initial_def pk_seats_def unique_seat_numbers_def concrete_defs)

lemma run_store1: "run [Reserve env1 ''g'' [''1'', ''2''] None] store0 = Some store1"
  by (simp add: reserve_1_2) (simp add: concrete_defs)

theorem never_confirmed_witness:
  "initial store0 \<and> run [Reserve env1 ''g'' [''1'', ''2''] None] store0 = Some store1
   \<and> bookings store1 = [booking1] \<and> status booking1 = PENDING"
proof -
  have "bookings store1 = [booking1]" "status booking1 = PENDING"
    by (simp_all add: concrete_defs)
  with never_confirmed [OF initial_store0 run_store1] initial_store0 run_store1
  show ?thesis by simp
qed

section \<open>Status writes go one way\<close>

lemma pk_find:
  assumes "distinct (map booking_id bs)" "find (\<lambda>b. booking_id b = i) bs = Some b"
    "x \<in> set bs" "booking_id x = i"
  shows "x = b"
proof -
  from assms(2) have "b \<in> set bs" "booking_id b = i" by (auto dest: find_id)
  with assms(1,3,4) show ?thesis by (auto simp: distinct_map dest: inj_onD)
qed

lemma ids_expireRow: "map booking_id (expireRow t i bs) = map booking_id bs"
  by (simp add: expireRow_def)

lemma expireRow_keeps:
  "b \<in> set bs \<Longrightarrow> booking_id b \<noteq> i \<Longrightarrow> b \<in> set (expireRow t i bs)"
  by (force simp: expireRow_def)

lemma expireBooking_cycle_inv:
  assumes inv: "cycle_inv st s" and run: "expireBooking f t s i = (out, thrown, s')"
  shows "cycle_inv st s'"
proof -
  from expireBooking_cases [OF run] show ?thesis
  proof
    assume "s' = s \<and> out \<noteq> Expired"
    with inv show ?thesis by simp
  next
    assume "out = Expired \<and> thrown = None \<and>
      (\<exists>b. getBooking s i = Some b \<and> status b = PENDING \<and> s' = applyExpiry t s b)"
    then obtain b where b: "getBooking s i = Some b" "status b = PENDING"
      and s': "s' = applyExpiry t s b" by blast
    from b(1) have bid: "booking_id b = i" "b \<in> set (bookings s)"
      by (auto simp: getBooking_def dest: find_id)
    from inv have pk: "distinct (map booking_id (bookings s))"
      by (simp add: cycle_inv_def pk_bookings_def)
    have rows: "bookings s' = expireRow t i (bookings s)"
      using s' bid by (simp add: applyExpiry_def)
    have 1: "pk_bookings s'" using pk rows by (simp add: pk_bookings_def ids_expireRow)
    have 2: "x \<in> set (bookings s')" if x: "x \<in> set (bookings st)" "status x \<noteq> PENDING" for x
    proof -
      from inv x have xs: "x \<in> set (bookings s)" by (simp add: cycle_inv_def)
      have "booking_id x \<noteq> i"
      proof
        assume "booking_id x = i"
        with pk b(1) xs have "x = b" by (auto simp: getBooking_def intro: pk_find)
        with b(2) x(2) show False by simp
      qed
      with xs rows show ?thesis by (simp add: expireRow_keeps)
    qed
    have 3: "y \<in> set (bookings st) \<or>
          (status y = FAILED \<and>
           (\<exists>b \<in> set (bookings st). status b = PENDING \<and> booking_id b = booking_id y))"
      if y: "y \<in> set (bookings s')" for y
    proof -
      from y rows have "y \<in> set (bookings s) \<or>
         (\<exists>z \<in> set (bookings s). booking_id z = i \<and> y = z\<lparr>status := FAILED, updated_at := t\<rparr>)"
        by (auto dest: set_expireRow)
      then show ?thesis
      proof
        assume "y \<in> set (bookings s)"
        with inv show ?thesis by (simp add: cycle_inv_def)
      next
        assume "\<exists>z \<in> set (bookings s). booking_id z = i \<and> y = z\<lparr>status := FAILED, updated_at := t\<rparr>"
        then obtain z where z: "z \<in> set (bookings s)" "booking_id z = i"
          "y = z\<lparr>status := FAILED, updated_at := t\<rparr>" by blast
        with pk b(1) have "z = b" by (auto simp: getBooking_def intro: pk_find)
        with inv bid(2) b(2) have "b \<in> set (bookings st)" by (auto simp: cycle_inv_def)
        with z \<open>z = b\<close> b(2) show ?thesis by auto
      qed
    qed
    from 1 2 3 show ?thesis by (simp add: cycle_inv_def)
  qed
qed

lemma cycle_inv_refl: "pk_bookings st \<Longrightarrow> cycle_inv st st"
  by (simp add: cycle_inv_def)

lemma cycle_inv_one_way: "cycle_inv st s \<Longrightarrow> one_way st s"
  by (auto simp: cycle_inv_def one_way_def)

lemma createBooking_one_way:
  assumes "new_id e \<notin> booking_id ` set (bookings st)"
    and "createBooking e st showId seatNumbers userId = (r, st', q)"
  shows "one_way st st'"
proof (cases r)
  case (Inl err)
  with assms createBooking_Inl [of e st showId seatNumbers userId err st' q]
  have "st' = st \<or> (\<exists>b. bookings st' = bookings st @ [b] \<and> status b = PENDING \<and>
                          booking_id b = new_id e)"
    by (auto simp: newBooking_def)
  with assms(1) show ?thesis by (auto simp: one_way_def)
next
  case (Inr b)
  with assms(2) createBooking_Inr [of e st showId seatNumbers userId b st' q]
  have "bookings st' = bookings st @ [b]" "status b = PENDING" "booking_id b = new_id e"
    by (simp_all add: newBooking_def)
  with assms(1) show ?thesis by (auto simp: one_way_def)
qed

text \<open>
  C5. Under the primary key of the bookings, every operation \<open>x\<close> (a call of
  \<^verbatim>\<open>createBooking\<close> with its cleanup, the transaction of the reconciler for one
  identifier, a whole cycle) leaves every \<open>CONFIRMED\<close> or \<open>FAILED\<close> row in the store as
  it is; and every row of the store after the operation is a row of the store before
  it, a newly inserted \<open>PENDING\<close> row, or the \<open>FAILED\<close> successor of a row that was
  \<open>PENDING\<close>. So a status is only ever written along \<open>PENDING \<rightarrow> FAILED\<close>, inside the
  scheme of the data model. The identifier drawn by \<^verbatim>\<open>uuidv4()\<close> is one no booking has.
\<close>

theorem status_writes_one_way:
  assumes "op_ok x st" and "pk_bookings st"
  shows "(\<forall>b \<in> set (bookings st).
            status b = CONFIRMED \<or> status b = FAILED \<longrightarrow> b \<in> set (bookings (apply_op x st)))
       \<and> (\<forall>b' \<in> set (bookings (apply_op x st)).
            b' \<in> set (bookings st) \<or>
            (status b' = PENDING \<and> booking_id b' \<notin> booking_id ` set (bookings st)) \<or>
            (status b' = FAILED \<and>
             (\<exists>b \<in> set (bookings st). status b = PENDING \<and> booking_id b = booking_id b')))"
proof -
  have "one_way st (apply_op x st)"
  proof (cases x)
    case (Reserve e showId seatNumbers userId)
    obtain r st' q where c: "createBooking e st showId seatNumbers userId = (r, st', q)"
      by (cases "createBooking e st showId seatNumbers userId") auto
    from assms(1) Reserve have "new_id e \<notin> booking_id ` set (bookings st)" by simp
    from this c have "one_way st st'" by (rule createBooking_one_way)
    with Reserve c show ?thesis by simp
  next
    case (ExpireOne f t bookingId)
    obtain out thrown st' where c: "expireBooking f t st bookingId = (out, thrown, st')"
      by (cases "expireBooking f t st bookingId") auto
    from assms(2) have "cycle_inv st st" by (rule cycle_inv_refl)
    from this c have "cycle_inv st st'" by (rule expireBooking_cycle_inv)
    then have "one_way st st'" by (rule cycle_inv_one_way)
    with ExpireOne c show ?thesis by simp
  next
    case (Cycle w)
    obtain outs st' where c: "processExpiryCycle w st = (outs, st')"
      by (cases "processExpiryCycle w st") auto
    from assms(2) have "cycle_inv st st" by (rule cycle_inv_refl)
    from _ this c have "cycle_inv st st'"
      by (rule processExpiryCycle_preserves [where P = "cycle_inv st"])
         (rule expireBooking_cycle_inv)
    then have "one_way st st'" by (rule cycle_inv_one_way)
    with Cycle c show ?thesis by simp
  qed
  then show ?thesis
    by (auto simp: one_way_def)
qed

lemmas reconciler_defs =
  processExpiryCycle_def tryAcquireAdvisoryLock_def fetchCandidates_def stale_def minutes_def expireBooking_def itemTx_def
  release_def expireRow_def freeSeats_def Let_def

lemma cycle_store2:
  "processExpiryCycle wenv1 store2 = ([(''b1'', Expired)], store3)"
  by (simp add: reconciler_defs concrete_defs)

lemma pk_store2: "pk_bookings store2"
  by (simp add: pk_bookings_def concrete_defs)

theorem status_writes_one_way_witness:
  "pk_bookings store2 \<and> confirmed1 \<in> set (bookings store2) \<and> status confirmed1 = CONFIRMED
   \<and> apply_op (Cycle wenv1) store2 = store3
   \<and> confirmed1 \<in> set (bookings store3)"
proof -
  have a: "apply_op (Cycle wenv1) store2 = store3" by (simp add: cycle_store2)
  have c: "confirmed1 \<in> set (bookings store2)" "status confirmed1 = CONFIRMED"
    by (simp_all add: concrete_defs)
  have "op_ok (Cycle wenv1) store2" by simp
  from status_writes_one_way [OF this pk_store2] c
  have "confirmed1 \<in> set (bookings store3)" unfolding a by blast
  with c a pk_store2 show ?thesis by simp
qed

section \<open>What a reconciliation cycle expires\<close>

lemma find_expireRow_other:
  "j \<noteq> i \<Longrightarrow> find (\<lambda>b. booking_id b = j) (expireRow t i bs) = find (\<lambda>b. booking_id b = j) bs"
  by (induction bs) (auto simp: expireRow_def)

lemma find_expireRow_same:
  "find (\<lambda>b. booking_id b = i) bs = Some b \<Longrightarrow>
   find (\<lambda>b. booking_id b = i) (expireRow t i bs) = Some (b\<lparr>status := FAILED, updated_at := t\<rparr>)"
  by (induction bs) (auto simp: expireRow_def split: if_splits)

lemma set_freeSeats:
  "s \<in> set (freeSeats ids ss) \<Longrightarrow>
     (seat_id s \<in> set ids \<longrightarrow> seat_status s = AVAILABLE) \<and>
     (seat_status s = AVAILABLE \<or> s \<in> set ss)"
  by (auto simp: freeSeats_def)

lemma expireBooking_quiet:
  assumes "\<forall>s \<in> {Connect, Begin, LockBooking, ExpireBooking, FreeSeats, Commit, Rollback}. \<not> f s"
    and "getBooking st i = Some b" "status b = PENDING"
  shows "expireBooking f t st i = (Expired, None, applyExpiry t st b)"
proof -
  from assms(2) have "booking_id b = i" by (auto simp: getBooking_def dest: find_id)
  with assms show ?thesis
    by (cases "booking_seats b")
       (auto simp: expireBooking_def itemTx_def getBooking_def applyExpiry_def release_def
          freeSeats_Nil)
qed

lemma processItems_expires_all:
  assumes "\<forall>i \<in> set ids. \<forall>s \<in> {Connect, Begin, LockBooking, ExpireBooking, FreeSeats, Commit, Rollback}. \<not> f i s"
    and "distinct ids"
    and "\<forall>i \<in> set ids. \<exists>b. getBooking st i = Some b \<and> status b = PENDING"
  shows "\<exists>st'. processItems f t st ids = (map (\<lambda>i. (i, Expired)) ids, None, st')
          \<and> (\<forall>i \<in> set ids. \<forall>b. getBooking st i = Some b \<longrightarrow>
                getBooking st' i = Some (b\<lparr>status := FAILED, updated_at := t i\<rparr>) \<and>
                (\<forall>s \<in> set (seats st'). seat_id s \<in> set (booking_seats b) \<longrightarrow>
                    seat_status s = AVAILABLE))
          \<and> (\<forall>j. j \<notin> set ids \<longrightarrow> getBooking st' j = getBooking st j)
          \<and> (\<forall>s \<in> set (seats st'). seat_status s = AVAILABLE \<or> s \<in> set (seats st))"
  using assms
proof (induction ids arbitrary: st)
  case Nil
  then show ?case by simp
next
  case (Cons i ids)
  from Cons.prems(3) obtain b where b: "getBooking st i = Some b" "status b = PENDING"
    by auto
  let ?s1 = "applyExpiry (t i) st b"
  from b(1) have bid: "booking_id b = i" by (auto simp: getBooking_def dest: find_id)
  from Cons.prems(1) b have e: "expireBooking (f i) (t i) st i = (Expired, None, ?s1)"
    by (intro expireBooking_quiet) auto
  have other: "getBooking ?s1 j = getBooking st j" if "j \<noteq> i" for j
    using that bid by (simp add: getBooking_def applyExpiry_def find_expireRow_other)
  have same: "getBooking ?s1 i = Some (b\<lparr>status := FAILED, updated_at := t i\<rparr>)"
    using b(1) bid by (simp add: getBooking_def applyExpiry_def find_expireRow_same)
  have seats1: "(seat_id s \<in> set (booking_seats b) \<longrightarrow> seat_status s = AVAILABLE) \<and>
     (seat_status s = AVAILABLE \<or> s \<in> set (seats st))" if "s \<in> set (seats ?s1)" for s
    using that by (auto simp: applyExpiry_def dest: set_freeSeats)
  from Cons.prems(2) have ni: "i \<notin> set ids" and d: "distinct ids" by auto
  have p1: "\<forall>j \<in> set ids. \<forall>s \<in> {Connect, Begin, LockBooking, ExpireBooking, FreeSeats, Commit, Rollback}. \<not> f j s"
    using Cons.prems(1) by auto
  have p3: "\<forall>j \<in> set ids. \<exists>c. getBooking ?s1 j = Some c \<and> status c = PENDING"
  proof
    fix j assume j: "j \<in> set ids"
    with ni have "j \<noteq> i" by auto
    with Cons.prems(3) j show "\<exists>c. getBooking ?s1 j = Some c \<and> status c = PENDING"
      by (simp add: other)
  qed
  from Cons.IH [OF p1 d p3] obtain st' where
    run: "processItems f t ?s1 ids = (map (\<lambda>i. (i, Expired)) ids, None, st')"
    and fin: "\<forall>j \<in> set ids. \<forall>c. getBooking ?s1 j = Some c \<longrightarrow>
                getBooking st' j = Some (c\<lparr>status := FAILED, updated_at := t j\<rparr>) \<and>
                (\<forall>s \<in> set (seats st'). seat_id s \<in> set (booking_seats c) \<longrightarrow>
                    seat_status s = AVAILABLE)"
    and frame: "\<forall>j. j \<notin> set ids \<longrightarrow> getBooking st' j = getBooking ?s1 j"
    and seats': "\<forall>s \<in> set (seats st'). seat_status s = AVAILABLE \<or> s \<in> set (seats ?s1)"
    by blast
  have r: "processItems f t st (i # ids) = (map (\<lambda>i. (i, Expired)) (i # ids), None, st')"
    using e run by simp
  have a: "getBooking st' j = Some (c\<lparr>status := FAILED, updated_at := t j\<rparr>) \<and>
                (\<forall>s \<in> set (seats st'). seat_id s \<in> set (booking_seats c) \<longrightarrow>
                    seat_status s = AVAILABLE)"
    if j: "j \<in> set (i # ids)" and c: "getBooking st j = Some c" for j c
  proof (cases "j = i")
    case True
    with c b(1) have cb: "c = b" by simp
    from frame ni same have "getBooking st' i = Some (b\<lparr>status := FAILED, updated_at := t i\<rparr>)"
      by simp
    moreover have "seat_status s = AVAILABLE"
      if "s \<in> set (seats st')" "seat_id s \<in> set (booking_seats b)" for s
      using that seats' seats1 by blast
    ultimately show ?thesis using True cb by simp
  next
    case False
    with j have "j \<in> set ids" by simp
    moreover from False c have "getBooking ?s1 j = Some c" by (simp add: other)
    ultimately show ?thesis using fin by blast
  qed
  have fr: "getBooking st' j = getBooking st j" if "j \<notin> set (i # ids)" for j
    using that frame other by auto
  have se: "seat_status s = AVAILABLE \<or> s \<in> set (seats st)" if "s \<in> set (seats st')" for s
    using that seats' seats1 by blast
  from r a fr se show ?case by blast
qed


lemma candidates_are_stale:
  "i \<in> set (fetchCandidates w st) \<Longrightarrow> \<exists>b \<in> set (bookings st). booking_id b = i \<and> stale w b"
  by (auto simp: fetchCandidates_def dest!: in_set_takeD)

lemma candidates_distinct:
  assumes "pk_bookings st"
  shows "distinct (fetchCandidates w st)"
proof -
  let ?xs = "sort_key created_at (filter (stale w) (bookings st))"
  from assms have "distinct (map booking_id (filter (stale w) (bookings st)))"
    unfolding pk_bookings_def by (rule distinct_map_filter)
  then have "distinct (map booking_id ?xs)" by (simp add: distinct_map)
  then have "distinct (take 100 (map booking_id ?xs))" by (rule distinct_take)
  then show ?thesis by (simp add: fetchCandidates_def take_map)
qed

lemma candidates_all:
  assumes "length (filter (stale w) (bookings st)) \<le> 100" "b \<in> set (bookings st)" "stale w b"
  shows "booking_id b \<in> set (fetchCandidates w st)"
  using assms by (simp add: fetchCandidates_def)

lemma pk_getBooking:
  assumes "pk_bookings st" "b \<in> set (bookings st)"
  shows "getBooking st (booking_id b) = Some b"
proof (cases "getBooking st (booking_id b)")
  case None
  with assms(2) show ?thesis by (auto simp: getBooking_def find_None_iff)
next
  case (Some c)
  with assms have "b = c"
    by (auto simp: getBooking_def pk_bookings_def intro: pk_find)
  with Some show ?thesis by simp
qed

lemma processExpiryCycle_quiet:
  assumes "quiet w"
  shows "\<exists>outs thrown. processItems (item_fails w) (item_now w) st (fetchCandidates w st)
            = (outs, thrown, snd (processExpiryCycle w st))"
proof (cases "fetchCandidates w st")
  case Nil
  with assms show ?thesis
    by (simp add: processExpiryCycle_def tryAcquireAdvisoryLock_def quiet_def)
next
  case (Cons i ids)
  with assms show ?thesis
    by (cases "processItems (item_fails w) (item_now w) st (fetchCandidates w st)")
       (auto simp: processExpiryCycle_def tryAcquireAdvisoryLock_def quiet_def Let_def)
qed

lemma processItems_keeps:
  assumes "b \<in> set (bookings st)" "booking_id b \<notin> set ids"
    "processItems f t st ids = (outs, thrown, st')"
  shows "b \<in> set (bookings st')"
  using assms
proof (induction ids arbitrary: st outs thrown st')
  case Nil
  then show ?case by simp
next
  case (Cons i ids)
  obtain out thr s1 where e: "expireBooking (f i) (t i) st i = (out, thr, s1)"
    by (cases "expireBooking (f i) (t i) st i") auto
  from Cons.prems(2) have ne: "booking_id b \<noteq> i" and ni: "booking_id b \<notin> set ids" by auto
  from expireBooking_cases [OF e] Cons.prems(1) ne have b1: "b \<in> set (bookings s1)"
    by (auto simp: applyExpiry_def getBooking_def dest!: find_id intro: expireRow_keeps)
  show ?case
  proof (cases thr)
    case None
    obtain outs2 thr2 s2 where r: "processItems f t s1 ids = (outs2, thr2, s2)"
      by (cases "processItems f t s1 ids") auto
    with Cons.prems(3) e None have "st' = s2" by simp
    with Cons.IH [OF b1 ni r] show ?thesis by simp
  next
    case (Some err)
    with Cons.prems(3) e have "st' = s1" by simp
    with b1 show ?thesis by simp
  qed
qed

text \<open>
  C3 (as amended). Under the primary key of the bookings:
  \<^item> in a cycle that gets the advisory lock and meets no rejected statement, every
    booking that is \<open>PENDING\<close>, older than the deadline and among the candidates of the
    cycle (the 100 oldest such bookings) is \<open>FAILED\<close> after the cycle, and every seat
    it references is \<open>AVAILABLE\<close>;
  \<^item> when at most 100 bookings are \<open>PENDING\<close> and older than the deadline, all of them
    are candidates;
  \<^item> a booking that is \<open>CONFIRMED\<close> before the cycle is left as it is by every cycle,
    however old it is.
\<close>

theorem cycle_expires_batch:
  assumes pk: "pk_bookings st"
  shows "(quiet w \<longrightarrow>
           (\<forall>b \<in> set (bookings st).
              stale w b \<and> booking_id b \<in> set (fetchCandidates w st) \<longrightarrow>
                getBooking (snd (processExpiryCycle w st)) (booking_id b)
                  = Some (b\<lparr>status := FAILED, updated_at := item_now w (booking_id b)\<rparr>) \<and>
                (\<forall>s \<in> set (seats (snd (processExpiryCycle w st))).
                    seat_id s \<in> set (booking_seats b) \<longrightarrow> seat_status s = AVAILABLE)))
       \<and> (length (filter (stale w) (bookings st)) \<le> 100 \<longrightarrow>
            (\<forall>b \<in> set (bookings st). stale w b \<longrightarrow> booking_id b \<in> set (fetchCandidates w st)))
       \<and> (\<forall>c \<in> set (bookings st).
            status c = CONFIRMED \<longrightarrow> c \<in> set (bookings (snd (processExpiryCycle w st))))"
proof (intro conjI impI ballI)
  fix b
  assume q: "quiet w" and b: "b \<in> set (bookings st)"
    and sb: "stale w b \<and> booking_id b \<in> set (fetchCandidates w st)"
  let ?ids = "fetchCandidates w st"
  let ?st' = "snd (processExpiryCycle w st)"
  have pend: "\<forall>i \<in> set ?ids. \<exists>c. getBooking st i = Some c \<and> status c = PENDING"
  proof
    fix i assume "i \<in> set ?ids"
    then obtain c where "c \<in> set (bookings st)" "booking_id c = i" "stale w c"
      by (auto dest: candidates_are_stale)
    with pk show "\<exists>c. getBooking st i = Some c \<and> status c = PENDING"
      using pk_getBooking [of st c] by (auto simp: stale_def)
  qed
  from q have nf: "\<forall>i \<in> set ?ids.
      \<forall>s \<in> {Connect, Begin, LockBooking, ExpireBooking, FreeSeats, Commit, Rollback}.
        \<not> item_fails w i s"
    by (simp add: quiet_def)
  from processItems_expires_all [OF nf candidates_distinct [OF pk] pend, of "item_now w"]
  obtain s' where run: "processItems (item_fails w) (item_now w) st ?ids
       = (map (\<lambda>i. (i, Expired)) ?ids, None, s')"
    and fin: "\<forall>i \<in> set ?ids. \<forall>c. getBooking st i = Some c \<longrightarrow>
                getBooking s' i = Some (c\<lparr>status := FAILED, updated_at := item_now w i\<rparr>) \<and>
                (\<forall>s \<in> set (seats s'). seat_id s \<in> set (booking_seats c) \<longrightarrow>
                    seat_status s = AVAILABLE)"
    by blast
  from processExpiryCycle_quiet [OF q, of st] run have s': "?st' = s'" by auto
  from pk b have "getBooking st (booking_id b) = Some b" by (rule pk_getBooking)
  with fin sb have r: "getBooking s' (booking_id b)
        = Some (b\<lparr>status := FAILED, updated_at := item_now w (booking_id b)\<rparr>) \<and>
      (\<forall>s \<in> set (seats s'). seat_id s \<in> set (booking_seats b) \<longrightarrow> seat_status s = AVAILABLE)"
    by blast
  from r s' show "getBooking ?st' (booking_id b)
        = Some (b\<lparr>status := FAILED, updated_at := item_now w (booking_id b)\<rparr>)"
    by simp
  fix s assume "s \<in> set (seats ?st')" "seat_id s \<in> set (booking_seats b)"
  with r s' show "seat_status s = AVAILABLE" by simp
next
  fix b
  assume "length (filter (stale w) (bookings st)) \<le> 100" "b \<in> set (bookings st)" "stale w b"
  then show "booking_id b \<in> set (fetchCandidates w st)" by (rule candidates_all)
next
  fix c
  assume c: "c \<in> set (bookings st)" "status c = CONFIRMED"
  obtain outs st' where r: "processExpiryCycle w st = (outs, st')"
    by (cases "processExpiryCycle w st") auto
  from pk have "cycle_inv st st" by (rule cycle_inv_refl)
  from _ this r have "cycle_inv st st'"
    by (rule processExpiryCycle_preserves [where P = "cycle_inv st"])
       (rule expireBooking_cycle_inv)
  with c r show "c \<in> set (bookings (snd (processExpiryCycle w st)))"
    by (simp add: cycle_inv_def)
qed


lemma quiet_wenv1: "quiet wenv1"
  by (simp add: quiet_def concrete_defs)

theorem cycle_expires_batch_witness:
  "quiet wenv1 \<and> booking1 \<in> set (bookings store2) \<and> stale wenv1 booking1
   \<and> length (filter (stale wenv1) (bookings store2)) \<le> 100
   \<and> booking_id booking1 \<in> set (fetchCandidates wenv1 store2)
   \<and> snd (processExpiryCycle wenv1 store2) = store3
   \<and> getBooking store3 ''b1'' = Some (booking1\<lparr>status := FAILED, updated_at := 200000001\<rparr>)
   \<and> seats store3 = [seat1, seat2, seat3\<lparr>seat_status := BOOKED\<rparr>]
   \<and> status confirmed1 = CONFIRMED \<and> created_at confirmed1 < created_at booking1
   \<and> confirmed1 \<in> set (bookings store2) \<and> confirmed1 \<in> set (bookings store3)"
proof -
  have b: "booking1 \<in> set (bookings store2)" "stale wenv1 booking1"
    "length (filter (stale wenv1) (bookings store2)) \<le> 100" "booking_id booking1 = ''b1''"
    by (simp_all add: stale_def minutes_def concrete_defs)
  have c: "confirmed1 \<in> set (bookings store2)" "status confirmed1 = CONFIRMED"
    "created_at confirmed1 < created_at booking1"
    by (simp_all add: concrete_defs)
  note t = cycle_expires_batch [OF pk_store2, of wenv1]
  from t b have m: "booking_id booking1 \<in> set (fetchCandidates wenv1 store2)"
    by blast
  from t quiet_wenv1 b(1,2) m have
    "getBooking (snd (processExpiryCycle wenv1 store2)) (booking_id booking1)
       = Some (booking1\<lparr>status := FAILED, updated_at := item_now wenv1 (booking_id booking1)\<rparr>)"
    by simp
  then have 1: "getBooking store3 ''b1''
       = Some (booking1\<lparr>status := FAILED, updated_at := 200000001\<rparr>)"
    by (simp add: cycle_store2 b(4)) (simp add: wenv1_def)
  from t c have 2: "confirmed1 \<in> set (bookings store3)"
    by (simp add: cycle_store2)
  have 3: "seats store3 = [seat1, seat2, seat3\<lparr>seat_status := BOOKED\<rparr>]"
    by (simp add: store3_def)
  from quiet_wenv1 b c m 1 2 3 show ?thesis by (simp add: cycle_store2)
qed

lemma backlog_candidates:
  "fetchCandidates wenv1 backlog = map (\<lambda>n. replicate (Suc n) CHR ''b'') [0..<100]"
proof -
  have st: "\<forall>b \<in> set (map staleRow [0..<101]). stale wenv1 b"
    by (auto simp: stale_def staleRow_def minutes_def wenv1_def)
  have ca: "map created_at (map staleRow [0..<101]) = map int [0..<101]"
    by (simp add: staleRow_def)
  have "sorted (map int [0..<101])"
    by (simp add: sorted_map sorted_wrt_iff_nth_less)
  then have "sorted (map created_at (map staleRow [0..<101]))" by (simp only: ca)
  then have so: "sort_key created_at (map staleRow [0..<101]) = map staleRow [0..<101]"
    by (rule sort_key_id_if_sorted)
  have "take 100 (map staleRow [0..<101]) = map staleRow [0..<100]"
    by (simp add: take_map)
  then show ?thesis
    using st so by (simp add: fetchCandidates_def backlog_def staleRow_def comp_def)
qed

text \<open>
  C3 as stated fails: with 101 bookings \<open>PENDING\<close> and older than the deadline, a cycle
  that gets the lock and meets no rejected statement leaves the newest of them as it
  was, \<open>PENDING\<close>: the candidate query stops at 100 rows.
\<close>

theorem backlog_counterexample:
  "quiet wenv1 \<and> pk_bookings backlog \<and> staleRow 100 \<in> set (bookings backlog)
   \<and> stale wenv1 (staleRow 100) \<and> status (staleRow 100) = PENDING
   \<and> staleRow 100 \<in> set (bookings (snd (processExpiryCycle wenv1 backlog)))"
proof -
  have pk: "pk_bookings backlog"
    by (auto simp: pk_bookings_def backlog_def staleRow_def comp_def distinct_map
        intro!: inj_onI dest: arg_cong [where f = length])
  have m: "staleRow 100 \<in> set (bookings backlog)" by (simp add: backlog_def)
  have s: "stale wenv1 (staleRow 100)" "status (staleRow 100) = PENDING"
    by (simp_all add: stale_def staleRow_def minutes_def wenv1_def)
  have n: "booking_id (staleRow 100) \<notin> set (fetchCandidates wenv1 backlog)"
    by (auto simp: backlog_candidates staleRow_def dest: arg_cong [where f = length])
  from processExpiryCycle_quiet [OF quiet_wenv1, of backlog] obtain outs thrown where
    "processItems (item_fails wenv1) (item_now wenv1) backlog (fetchCandidates wenv1 backlog)
            = (outs, thrown, snd (processExpiryCycle wenv1 backlog))"
    by blast
  with m n have "staleRow 100 \<in> set (bookings (snd (processExpiryCycle wenv1 backlog)))"
    by (rule processItems_keeps)
  with quiet_wenv1 pk m s show ?thesis by simp
qed

section \<open>One holder per seat\<close>

lemma pk_seats_same:
  assumes "distinct (map seat_id ss)" "r \<in> set ss" "s \<in> set ss" "seat_id r = seat_id s"
  shows "r = s"
  using assms by (auto simp: distinct_map dest: inj_onD)

lemma ids_markSeatsBooked: "map seat_id (markSeatsBooked ids ss) = map seat_id ss"
  by (simp add: markSeatsBooked_def)

lemma ids_freeSeats: "map seat_id (freeSeats ids ss) = map seat_id ss"
  by (simp add: freeSeats_def)

lemma createBooking_good:
  assumes g: "good st" and run: "createBooking e st showId seatNumbers userId = (r, st', q)"
    and fresh: "new_id e \<notin> booking_id ` set (bookings st)"
  shows "good st'"
proof (cases "st' = st")
  case True
  with g show ?thesis by simp
next
  case False
  let ?rows = "lockQuery st showId seatNumbers"
  let ?ids = "map seat_id ?rows"
  define b where "b = newBooking e showId userId ?ids"
  have "st' = \<lparr>seats = markSeatsBooked ?ids (seats st), bookings = bookings st @ [b]\<rparr>
      \<and> find (\<lambda>s. seat_status s \<noteq> AVAILABLE) ?rows = None"
  proof (cases r)
    case (Inl err)
    with run fresh False createBooking_Inl [of e st showId seatNumbers userId err st' q]
    show ?thesis by (simp add: b_def)
  next
    case (Inr b')
    with run createBooking_Inr [of e st showId seatNumbers userId b' st' q]
    show ?thesis by (simp add: b_def)
  qed
  then have shape: "b = newBooking e showId userId ?ids"
    "st' = \<lparr>seats = markSeatsBooked ?ids (seats st), bookings = bookings st @ [b]\<rparr>"
    "find (\<lambda>s. seat_status s \<noteq> AVAILABLE) ?rows = None"
    by (simp_all add: b_def)
  from g have inv: "store_inv st" and pks: "distinct (map seat_id (seats st))"
    and pkb: "distinct (map booking_id (bookings st))"
    by (simp_all add: good_def pk_seats_def pk_bookings_def)
  have b: "status b = PENDING" "booking_seats b = ?ids" "booking_id b = new_id e"
    using shape(1) by (simp_all add: newBooking_def)
  have 1: "pk_seats st'" using pks shape(2) by (simp add: pk_seats_def ids_markSeatsBooked)
  have 2: "pk_bookings st'" using pkb shape(2) b(3) fresh by (simp add: pk_bookings_def)
  have h: "holders st' sid = holders st sid @ (if sid \<in> set ?ids then [b] else [])" for sid
    using shape(2) b by (simp add: holders_def)
  have 3: "length (holders st' (seat_id s')) \<le> 1 \<and>
           (seat_status s' = BOOKED \<longleftrightarrow> holders st' (seat_id s') \<noteq> [])"
    if s': "s' \<in> set (seats st')" for s'
  proof -
    from s' shape(2) obtain s where s: "s \<in> set (seats st)"
      "s' = (if seat_id s \<in> set ?ids then s\<lparr>seat_status := BOOKED\<rparr> else s)"
      by (auto simp: markSeatsBooked_def)
    from inv s(1) have old: "length (holders st (seat_id s)) \<le> 1"
      "seat_status s = BOOKED \<longleftrightarrow> holders st (seat_id s) \<noteq> []"
      by (auto simp: store_inv_def)
    show ?thesis
    proof (cases "seat_id s \<in> set ?ids")
      case True
      then obtain r where r: "r \<in> set ?rows" "seat_id r = seat_id s" by auto
      then have "r \<in> set (seats st)" by (simp add: lockQuery_def)
      with pks s(1) r(2) have "r = s" by (auto intro: pk_seats_same)
      with r(1) shape(3) have "seat_status s = AVAILABLE" by (auto simp: find_None_iff)
      with old(2) have "holders st (seat_id s) = []" by auto
      with True s(2) show ?thesis by (simp add: h)
    next
      case False
      with s(2) old show ?thesis by (simp add: h)
    qed
  qed
  from 1 2 3 show ?thesis by (simp add: good_def store_inv_def)
qed

lemma holders_expireRow:
  "filter (\<lambda>b. status b \<noteq> FAILED \<and> sid \<in> set (booking_seats b)) (expireRow t i bs)
   = filter (\<lambda>b. booking_id b \<noteq> i) (filter (\<lambda>b. status b \<noteq> FAILED \<and> sid \<in> set (booking_seats b)) bs)"
  by (induction bs) (auto simp: expireRow_def)

lemma expireBooking_good:
  assumes g: "good st" and run: "expireBooking f t st i = (out, thrown, st')"
  shows "good st'"
proof -
  from expireBooking_cases [OF run] show ?thesis
  proof
    assume "st' = st \<and> out \<noteq> Expired"
    with g show ?thesis by simp
  next
    assume "out = Expired \<and> thrown = None \<and>
      (\<exists>b. getBooking st i = Some b \<and> status b = PENDING \<and> st' = applyExpiry t st b)"
    then obtain b where b: "getBooking st i = Some b" "status b = PENDING"
      and st': "st' = applyExpiry t st b" by blast
    from b(1) have bid: "booking_id b = i" "b \<in> set (bookings st)"
      by (auto simp: getBooking_def dest: find_id)
    from g have inv: "store_inv st" and pks: "distinct (map seat_id (seats st))"
      and pkb: "distinct (map booking_id (bookings st))"
      by (simp_all add: good_def pk_seats_def pk_bookings_def)
    have 1: "pk_seats st'" using pks st' by (simp add: pk_seats_def applyExpiry_def ids_freeSeats)
    have 2: "pk_bookings st'"
      using pkb st' by (simp add: pk_bookings_def applyExpiry_def ids_expireRow)
    have h: "holders st' sid = filter (\<lambda>b. booking_id b \<noteq> i) (holders st sid)" for sid
      using st' bid(1) by (simp add: holders_def applyExpiry_def holders_expireRow)
    have 3: "length (holders st' (seat_id s')) \<le> 1 \<and>
           (seat_status s' = BOOKED \<longleftrightarrow> holders st' (seat_id s') \<noteq> [])"
      if s': "s' \<in> set (seats st')" for s'
    proof -
      from s' st' obtain s where s: "s \<in> set (seats st)"
        "s' = (if seat_id s \<in> set (booking_seats b) then s\<lparr>seat_status := AVAILABLE\<rparr> else s)"
        by (auto simp: applyExpiry_def freeSeats_def)
      from inv s(1) have old: "length (holders st (seat_id s)) \<le> 1"
        "seat_status s = BOOKED \<longleftrightarrow> holders st (seat_id s) \<noteq> []"
        by (auto simp: store_inv_def)
      show ?thesis
      proof (cases "seat_id s \<in> set (booking_seats b)")
        case True
        with bid(2) b(2) have "b \<in> set (holders st (seat_id s))" by (simp add: holders_def)
        with old(1) have "holders st (seat_id s) = [b]"
          by (cases "holders st (seat_id s)") auto
        with True s(2) bid(1) show ?thesis by (simp add: h)
      next
        case False
        have "filter (\<lambda>b. booking_id b \<noteq> i) (holders st (seat_id s)) = holders st (seat_id s)"
        proof (rule filter_True, rule ballI)
          fix x assume x: "x \<in> set (holders st (seat_id s))"
          show "booking_id x \<noteq> i"
          proof
            assume "booking_id x = i"
            with pkb b(1) x have "x = b" by (auto simp: getBooking_def holders_def intro: pk_find)
            with x False show False by (simp add: holders_def)
          qed
        qed
        with False s(2) old show ?thesis by (simp add: h)
      qed
    qed
    from 1 2 3 show ?thesis by (simp add: good_def store_inv_def)
  qed
qed

lemma initial_good: "initial st \<Longrightarrow> good st"
  by (auto simp: initial_def good_def store_inv_def holders_def pk_bookings_def)

lemma apply_op_good: "op_ok x st \<Longrightarrow> good st \<Longrightarrow> good (apply_op x st)"
  by (rule apply_op_preserves [where P = good])
     (auto intro: createBooking_good expireBooking_good)

text \<open>
  C2. In every store reachable from a catalogue without bookings, each seat is named by
  at most one booking that is \<open>PENDING\<close> or \<open>CONFIRMED\<close>, and it is \<open>BOOKED\<close> exactly
  when there is one. And from any store that satisfies this and the two primary keys,
  every operation leads to a store that satisfies it: a call of \<^verbatim>\<open>createBooking\<close> that
  succeeds, one that fails (with its cleanup after the rollback), the transaction of
  the reconciler for one booking, and a whole cycle.
\<close>

theorem one_holder_per_seat:
  "(initial st0 \<and> run ops st0 = Some st \<longrightarrow> store_inv st)
   \<and> (store_inv st \<and> pk_seats st \<and> pk_bookings st \<and> op_ok x st \<longrightarrow> store_inv (apply_op x st))"
proof (intro conjI impI)
  assume a: "initial st0 \<and> run ops st0 = Some st"
  then have "good st0" by (simp add: initial_good)
  with apply_op_good have "good st"
    using a by (auto intro: run_preserves [where P = good])
  then show "store_inv st" by (simp add: good_def)
next
  assume "store_inv st \<and> pk_seats st \<and> pk_bookings st \<and> op_ok x st"
  then have "good st" "op_ok x st" by (simp_all add: good_def)
  then have "good (apply_op x st)" by (auto intro: apply_op_good)
  then show "store_inv (apply_op x st)" by (simp add: good_def)
qed

theorem one_holder_per_seat_witness:
  "initial store0 \<and> run [Reserve env1 ''g'' [''1'', ''2''] None] store0 = Some store1
   \<and> holders store1 ''s1'' = [booking1] \<and> holders store1 ''s2'' = [booking1]
   \<and> holders store1 ''s3'' = []
   \<and> map seat_status (seats store1) = [BOOKED, BOOKED, AVAILABLE]
   \<and> store_inv store1
   \<and> store_inv store2 \<and> pk_seats store2 \<and> pk_bookings store2
   \<and> apply_op (Cycle wenv1) store2 = store3
   \<and> holders store3 ''s1'' = [] \<and> holders store3 ''s2'' = []
   \<and> holders store3 ''s3'' = [confirmed1]
   \<and> map seat_status (seats store3) = [AVAILABLE, AVAILABLE, BOOKED]
   \<and> store_inv store3"
proof -
  have h: "holders store1 ''s1'' = [booking1]" "holders store1 ''s2'' = [booking1]"
    "holders store1 ''s3'' = []" "map seat_status (seats store1) = [BOOKED, BOOKED, AVAILABLE]"
    "holders store3 ''s1'' = []" "holders store3 ''s2'' = []"
    "holders store3 ''s3'' = [confirmed1]"
    "map seat_status (seats store3) = [AVAILABLE, AVAILABLE, BOOKED]"
    by (simp_all add: holders_def concrete_defs)
  note t1 = one_holder_per_seat [of store0 "[Reserve env1 ''g'' [''1'', ''2''] None]" store1]
  from t1 initial_store0 run_store1 have 1: "store_inv store1" by blast
  have a: "apply_op (Cycle wenv1) store2 = store3" by (simp add: cycle_store2)
  have i2: "store_inv store2" "pk_seats store2"
    by (simp_all add: store_inv_def holders_def pk_seats_def concrete_defs)
  note t2 = one_holder_per_seat [of _ _ store2 "Cycle wenv1"]
  have "op_ok (Cycle wenv1) store2" by simp
  with t2 i2 pk_store2 have 2: "store_inv store3" unfolding a by blast
  from h 1 2 a i2 pk_store2 initial_store0 run_store1 show ?thesis by simp
qed

section \<open>A failed candidate and the rest of the batch\<close>

text \<open>
  When a statement of the \<^verbatim>\<open>try\<close> block is rejected and the \<^verbatim>\<open>ROLLBACK\<close> of the
  \<^verbatim>\<open>catch\<close> block is accepted, the candidate leaves the store as it was and the loop
  goes on with the remaining candidates.
\<close>

lemma failed_item_isolated:
  assumes "\<not> f i Connect" "\<not> f i Rollback" "itemTx (f i) (t i) st i = Inl s"
  shows "processItems f t st (i # ids) =
           (case processItems f t st ids of
              (outs, thrown, st') \<Rightarrow> ((i, Failed s) # outs, thrown, st'))"
  using assms by (simp add: expireBooking_def release_def)

text \<open>
  C9 at a failing input. The candidates are \<open>b1\<close> and \<open>b2\<close>; the connection of the
  transaction of \<open>b1\<close> is lost at the lock query, so the \<^verbatim>\<open>ROLLBACK\<close> of the \<^verbatim>\<open>catch\<close>
  block is rejected too and its error leaves the loop. Nothing is rejected for \<open>b2\<close>,
  yet the cycle ends after \<open>b1\<close>: \<open>b2\<close> is never processed and is still \<open>PENDING\<close>.
\<close>

theorem rollback_rejected_aborts_batch:
  "fetchCandidates wenv2 store4 = [''b1'', ''b2'']
   \<and> item_fails wenv2 ''b2'' = no_faults
   \<and> processExpiryCycle wenv2 store4 = ([(''b1'', Failed LockBooking)], store4)
   \<and> getBooking store4 ''b2'' = Some booking2 \<and> status booking2 = PENDING"
  by (simp add: reconciler_defs getBooking_def concrete_defs)

end
